theory Spec2Isabelle
  imports Complex_Main
begin

section \<open>JavaScript values used by the tracer\<close>

text \<open>
  The values a span attribute can hold (\<open>Record<string, any>\<close>), with JavaScript's
  truthiness, which \<open>a || b\<close> consults.
\<close>

datatype js_value = JUndefined | JNull | JBool bool | JNum int | JStr string

fun truthy :: "js_value \<Rightarrow> bool" where
  "truthy JUndefined = False"
| "truthy JNull = False"
| "truthy (JBool b) = b"
| "truthy (JNum n) = (n \<noteq> 0)"
| "truthy (JStr s) = (s \<noteq> [])"

text \<open>An \<open>Error\<close> object, identified by its message.\<close>

datatype js_error = Error (message: string)

text \<open>
  What a call can throw: an \<open>Error\<close> raised by a \<open>throw\<close> statement of the source, or the
  \<open>TypeError\<close> of the runtime when a property of \<open>undefined\<close> is read. Results are
  \<open>exn + 'a\<close>, with \<open>Inl\<close> for the exception.
\<close>

datatype exn = Throw js_error | TypeError

text \<open>Decimal text of an integer, as a template literal prints it.\<close>

definition digit_char :: "nat \<Rightarrow> char" where
  "digit_char d = ''0123456789'' ! d"

fun show_nat :: "nat \<Rightarrow> string" where
  "show_nat n = (if n < 10 then [digit_char n] else show_nat (n div 10) @ [digit_char (n mod 10)])"

definition show_int :: "int \<Rightarrow> string" where
  "show_int i = (if i < 0 then CHR ''-'' # show_nat (nat (- i)) else show_nat (nat i))"

section \<open>The heap\<close>

text \<open>
  Spans and traces are objects: \<open>allSpans\<close>, \<open>rootSpan\<close>, \<open>currentSpan\<close> and \<open>children\<close> hold
  references to the same span objects, and the tracer's maps hold references to the trace
  objects handed to the caller. A heap is the list of the objects allocated so far, a
  reference is a position in it, \<open>new\<close> appends. Reading through a reference that was never
  allocated does not happen in JavaScript; the model answers \<open>None\<close> there, and the
  operations turn that into \<open>TypeError\<close>.
\<close>

type_synonym ref = nat

definition deref :: "'a list \<Rightarrow> ref \<Rightarrow> 'a option" where
  "deref h r = (if r < length h then Some (h ! r) else None)"

section \<open>Span (src/core/Span.ts)\<close>

datatype span_status = Started | Completed | Errored

text \<open>
  The fields of class \<open>Span\<close>, prefixed with \<open>span_\<close> since \<open>Trace\<close> has fields of the same
  names. \<open>span_status\<close> is \<open>'started' | 'completed' | 'error'\<close> (\<open>Errored\<close> stands for
  \<open>'error'\<close>). Optional fields are options. \<open>children\<close> holds references.
  \<open>attributes\<close> is an object used as a dictionary, kept as an association list.
\<close>

record Span =
  span_id :: string
  span_traceId :: string
  span_name :: string
  span_startTime :: int
  span_endTime :: "int option"
  span_duration :: "int option"
  span_status :: span_status
  span_error :: "js_error option"
  span_attributes :: "(string \<times> js_value) list"
  span_children :: "ref list"
  span_parentId :: "string option"

text \<open>
  The constructor reads the clock twice (once inside the id, once for \<open>startTime\<close>) and
  draws one random number. \<open>now_id\<close> and \<open>now_start\<close> are the two readings of \<open>Date.now()\<close>;
  \<open>rnd\<close> is the text the template literal prints for \<open>Math.random()\<close>.
\<close>

definition mk_span_id :: "int \<Rightarrow> string \<Rightarrow> string" where
  "mk_span_id now_id rnd = ''span-'' @ show_int now_id @ ''-'' @ rnd"

definition Span_new :: "string \<Rightarrow> string \<Rightarrow> string option \<Rightarrow> int \<Rightarrow> string \<Rightarrow> int \<Rightarrow> Span" where
  "Span_new traceId name parentId now_id rnd now_start =
     \<lparr> span_id = mk_span_id now_id rnd,
       span_traceId = traceId,
       span_name = name,
       span_startTime = now_start,
       span_endTime = None,
       span_duration = None,
       span_status = Started,
       span_error = None,
       span_attributes = [],
       span_children = [],
       span_parentId = parentId \<rparr>"

definition addChild :: "Span \<Rightarrow> ref \<Rightarrow> Span" where
  "addChild s child = s\<lparr> span_children := span_children s @ [child] \<rparr>"

text \<open>\<open>end(error?)\<close>; \<open>now\<close> is the reading of \<open>Date.now()\<close>.\<close>

definition Span_end :: "Span \<Rightarrow> js_error option \<Rightarrow> int \<Rightarrow> Span" where
  "Span_end s err now =
     s\<lparr> span_endTime := Some now,
        span_duration := Some (now - span_startTime s),
        span_status := (case err of Some _ \<Rightarrow> Errored | None \<Rightarrow> Completed),
        span_error := err \<rparr>"

fun assign :: "'k \<Rightarrow> 'v \<Rightarrow> ('k \<times> 'v) list \<Rightarrow> ('k \<times> 'v) list" where
  "assign k v [] = [(k, v)]"
| "assign k v (p # ps) = (if fst p = k then (k, v) # ps else p # assign k v ps)"

definition setAttribute :: "Span \<Rightarrow> string \<Rightarrow> js_value \<Rightarrow> Span" where
  "setAttribute s key val = s\<lparr> span_attributes := assign key val (span_attributes s) \<rparr>"

text \<open>
  The invariant of the data model: a duration is present exactly when the span has left
  \<open>Started\<close>, and then it is the end time minus the start time.
\<close>

definition duration_inv :: "Span \<Rightarrow> bool" where
  "duration_inv s =
     (((span_duration s \<noteq> None) = (span_status s \<noteq> Started)) \<and>
      (span_status s = Started \<or>
         (case span_endTime s of
            None \<Rightarrow> False
          | Some e \<Rightarrow> span_duration s = Some (e - span_startTime s))))"

text \<open>
  \<open>toJSON()\<close> builds a printable copy of the span tree and changes nothing; it is left out.
\<close>

section \<open>Trace (src/core/Trace.ts)\<close>

datatype trace_status = Running | Completed_trace | Failed

text \<open>
  The fields of class \<open>Trace\<close>. \<open>Completed_trace\<close> stands for \<open>'completed'\<close>. \<open>rootSpan\<close>,
  \<open>currentSpan\<close> and the elements of \<open>allSpans\<close> are references into the heap of spans.
\<close>

record Trace =
  traceId :: string
  startTime :: int
  endTime :: "int option"
  duration :: "int option"
  rootSpan :: ref
  allSpans :: "ref list"
  status :: trace_status
  currentSpan :: ref

text \<open>
  The constructor: \<open>now_trace\<close> is the clock reading for \<open>startTime\<close>; the three others go to
  the constructor of the root span, which gets no parent id. It returns the heap with the
  root span allocated, and the trace.
\<close>

definition Trace_new :: "Span list \<Rightarrow> string \<Rightarrow> string \<Rightarrow> int \<Rightarrow> int \<Rightarrow> string \<Rightarrow> int \<Rightarrow> Span list \<times> Trace" where
  "Trace_new h tid rootSpanName now_trace now_id rnd now_start =
     (let root = length h;
          h1 = h @ [Span_new tid rootSpanName None now_id rnd now_start]
      in (h1, \<lparr> traceId = tid,
                startTime = now_trace,
                endTime = None,
                duration = None,
                rootSpan = root,
                allSpans = [root],
                status = Running,
                currentSpan = root \<rparr>))"

text \<open>
  \<open>startSpan(name)\<close>: the new span's parent id is the id of the span under the cursor; the
  new span is appended to that span's children and to \<open>allSpans\<close>, and becomes the cursor.
\<close>

definition startSpan :: "Span list \<Rightarrow> Trace \<Rightarrow> string \<Rightarrow> int \<Rightarrow> string \<Rightarrow> int \<Rightarrow> exn + (Span list \<times> Trace \<times> ref)" where
  "startSpan h t name now_id rnd now_start =
     (case deref h (currentSpan t) of
        None \<Rightarrow> Inl TypeError
      | Some cur \<Rightarrow>
          (let new_span = length h;
               h1 = h @ [Span_new (traceId t) name (Some (span_id cur)) now_id rnd now_start];
               h2 = h1[currentSpan t := addChild cur new_span]
           in Inr (h2, t\<lparr> allSpans := allSpans t @ [new_span], currentSpan := new_span \<rparr>,
                   new_span)))"

text \<open>\<open>allSpans.find((s) => s.id === pid)\<close>: the first span of the list with that id.\<close>

fun find_span :: "Span list \<Rightarrow> ref list \<Rightarrow> string \<Rightarrow> exn + ref option" where
  "find_span h [] pid = Inr None"
| "find_span h (r # rs) pid =
     (case deref h r of
        None \<Rightarrow> Inl TypeError
      | Some s \<Rightarrow> if span_id s = pid then Inr (Some r) else find_span h rs pid)"

text \<open>
  \<open>endSpan(error?)\<close> ends the span under the cursor, then moves the cursor to the first span
  of \<open>allSpans\<close> whose id is the cursor's parent id, when the parent id is truthy (defined
  and not the empty string) and such a span exists.
\<close>

definition endSpan :: "Span list \<Rightarrow> Trace \<Rightarrow> js_error option \<Rightarrow> int \<Rightarrow> exn + (Span list \<times> Trace)" where
  "endSpan h t err now =
     (case deref h (currentSpan t) of
        None \<Rightarrow> Inl TypeError
      | Some cur \<Rightarrow>
          (let h1 = h[currentSpan t := Span_end cur err now]
           in case span_parentId cur of
                None \<Rightarrow> Inr (h1, t)
              | Some pid \<Rightarrow>
                  if pid = [] then Inr (h1, t)
                  else (case find_span h1 (allSpans t) pid of
                          Inl e \<Rightarrow> Inl e
                        | Inr None \<Rightarrow> Inr (h1, t)
                        | Inr (Some parent) \<Rightarrow> Inr (h1, t\<lparr> currentSpan := parent \<rparr>))))"

text \<open>\<open>finish(error?)\<close> touches the trace object only.\<close>

definition finish :: "Trace \<Rightarrow> js_error option \<Rightarrow> int \<Rightarrow> Trace" where
  "finish t err now =
     t\<lparr> endTime := Some now,
        duration := Some (now - startTime t),
        status := (case err of Some _ \<Rightarrow> Failed | None \<Rightarrow> Completed_trace) \<rparr>"

text \<open>\<open>d || 0\<close> on an optional number: \<open>undefined\<close> and \<open>0\<close> give \<open>0\<close>.\<close>

definition or0 :: "int option \<Rightarrow> int" where
  "or0 d = (case d of None \<Rightarrow> 0 | Some x \<Rightarrow> x)"

text \<open>\<open>refs.filter((s) => P s)\<close> on a list of references: the references whose object passes.\<close>

fun filter_refs :: "('a \<Rightarrow> bool) \<Rightarrow> 'a list \<Rightarrow> ref list \<Rightarrow> exn + ref list" where
  "filter_refs P h [] = Inr []"
| "filter_refs P h (r # rs) =
     (case deref h r of
        None \<Rightarrow> Inl TypeError
      | Some s \<Rightarrow>
          (case filter_refs P h rs of
             Inl e \<Rightarrow> Inl e
           | Inr ys \<Rightarrow> Inr (if P s then r # ys else ys)))"

text \<open>
  \<open>getSlowOperations(thresholdMs)\<close>; the threshold is any number (the default of the source
  is 100), durations are differences of clock readings.
\<close>

definition getSlowOperations :: "Span list \<Rightarrow> Trace \<Rightarrow> real \<Rightarrow> exn + ref list" where
  "getSlowOperations h t thresholdMs =
     filter_refs (\<lambda>s. real_of_int (or0 (span_duration s)) > thresholdMs) h (allSpans t)"

text \<open>
  \<open>getSpanTree()\<close> and \<open>visualize()\<close> build a printable copy and a text rendering of the span
  tree and change nothing; they are left out.
\<close>

text \<open>
  A sequence of calls made on one trace. Each call carries what it reads from the
  environment: \<open>StartSpan name now_id rnd now_start\<close>, \<open>EndSpan error now\<close>.
\<close>

datatype trace_op =
    is_start: StartSpan (op_name: string) (op_now_id: int) (op_rnd: string) (op_now_start: int)
  | is_end: EndSpan (op_error: "js_error option") (op_now: int)

fun Trace_step :: "Span list \<times> Trace \<Rightarrow> trace_op \<Rightarrow> exn + (Span list \<times> Trace)" where
  "Trace_step (h, t) (StartSpan name now_id rnd now_start) =
     (case startSpan h t name now_id rnd now_start of
        Inl e \<Rightarrow> Inl e
      | Inr (h', t', _) \<Rightarrow> Inr (h', t'))"
| "Trace_step (h, t) (EndSpan err now) = endSpan h t err now"

fun Trace_run :: "Span list \<times> Trace \<Rightarrow> trace_op list \<Rightarrow> exn + (Span list \<times> Trace)" where
  "Trace_run st [] = Inr st"
| "Trace_run st (x # xs) =
     (case Trace_step st x of
        Inl e \<Rightarrow> Inl e
      | Inr st' \<Rightarrow> Trace_run st' xs)"

text \<open>
  The linkage of a trace: \<open>allSpans[0]\<close> is the root span, and every other span of
  \<open>allSpans\<close> carries as parent id the id of a span of \<open>allSpans\<close>.
\<close>

definition has_parent_in :: "Span list \<Rightarrow> ref list \<Rightarrow> ref \<Rightarrow> bool" where
  "has_parent_in h rs r =
     (\<exists>p \<in> set rs. case (deref h r, deref h p) of
                      (Some sr, Some sp) \<Rightarrow> span_parentId sr = Some (span_id sp)
                    | _ \<Rightarrow> False)"

definition linked :: "Span list \<Rightarrow> Trace \<Rightarrow> bool" where
  "linked h t =
     (allSpans t \<noteq> [] \<and> allSpans t ! 0 = rootSpan t \<and>
      (\<forall>r \<in> set (allSpans t). r = rootSpan t \<or> has_parent_in h (allSpans t) r))"

subsection \<open>Invariants of a trace\<close>

text \<open>
  Two heaps agree on the linkage: every span of the first is in the second with the same
  id and the same parent id.
\<close>

definition same_links :: "Span list \<Rightarrow> Span list \<Rightarrow> bool" where
  "same_links h h' =
     (length h \<le> length h' \<and>
      (\<forall>r < length h. span_id (h' ! r) = span_id (h ! r) \<and>
                       span_parentId (h' ! r) = span_parentId (h ! r)))"

text \<open>
  A trace is well formed in a heap: its references are allocated, the cursor is one of
  \<open>allSpans\<close>, and the linkage holds.
\<close>

definition trace_ok :: "Span list \<Rightarrow> Trace \<Rightarrow> bool" where
  "trace_ok h t =
     ((\<forall>r \<in> set (allSpans t). r < length h) \<and> currentSpan t \<in> set (allSpans t) \<and> linked h t)"



subsection \<open>The state after nested calls\<close>

text \<open>
  What \<open>N\<close> \<open>startSpan\<close> calls followed by \<open>M\<close> \<open>endSpan\<close> calls are meant to leave, on a
  trace whose cursor is at the root span, said directly from the two lists of calls: the
  reference point for the nesting property. \<open>start_id\<close> is the id a \<open>startSpan\<close> call gives
  its span.
\<close>

definition start_id :: "trace_op \<Rightarrow> string" where
  "start_id x = mk_span_id (op_now_id x) (op_rnd x)"








section \<open>TraceStorage (class \<open>TraceStorage\<close>)\<close>

text \<open>
  A JavaScript \<open>Map\<close> iterates in insertion order: it is the list of its entries in that
  order. \<open>set\<close> on a key already present replaces the value where the entry stands, and on
  a new key appends the entry (\<open>assign\<close> above); \<open>delete\<close> removes the entry of the key.
\<close>

definition Map_get :: "('k \<times> 'v) list \<Rightarrow> 'k \<Rightarrow> 'v option" where
  "Map_get m k = map_of m k"

definition Map_delete :: "('k \<times> 'v) list \<Rightarrow> 'k \<Rightarrow> ('k \<times> 'v) list" where
  "Map_delete m k = filter (\<lambda>p. fst p \<noteq> k) m"

text \<open>
  The storage maps trace ids to references to trace objects. \<open>maxTraces\<close> is a private
  field that the constructor sets to 1000 and nothing changes.
\<close>

record TraceStorage =
  traces :: "(string \<times> ref) list"
  maxTraces :: int

definition TraceStorage_new :: TraceStorage where
  "TraceStorage_new = \<lparr> traces = [], maxTraces = 1000 \<rparr>"

text \<open>
  \<open>store(trace)\<close>, in the heap \<open>th\<close> of trace objects: set the entry of the trace's id, then
  delete the first key of the map when the size exceeds \<open>maxTraces\<close>. On an empty map
  \<open>keys().next().value\<close> is \<open>undefined\<close> and \<open>delete\<close> removes nothing.
\<close>

definition store :: "Trace list \<Rightarrow> TraceStorage \<Rightarrow> ref \<Rightarrow> exn + TraceStorage" where
  "store th st trace =
     (case deref th trace of
        None \<Rightarrow> Inl TypeError
      | Some t \<Rightarrow>
          (let m = assign (traceId t) trace (traces st)
           in if int (length m) > maxTraces st
              then (case m of
                      [] \<Rightarrow> Inr (st\<lparr> traces := m \<rparr>)
                    | (firstKey, _) # _ \<Rightarrow> Inr (st\<lparr> traces := Map_delete m firstKey \<rparr>))
              else Inr (st\<lparr> traces := m \<rparr>)))"

definition get :: "TraceStorage \<Rightarrow> string \<Rightarrow> ref option" where
  "get st tid = Map_get (traces st) tid"

definition getAll :: "TraceStorage \<Rightarrow> ref list" where
  "getAll st = map snd (traces st)"

text \<open>\<open>getSlowTraces(thresholdMs)\<close>; the default threshold of the source is 1000.\<close>

definition getSlowTraces :: "Trace list \<Rightarrow> TraceStorage \<Rightarrow> real \<Rightarrow> exn + ref list" where
  "getSlowTraces th st thresholdMs =
     filter_refs (\<lambda>t. real_of_int (or0 (duration t)) > thresholdMs) th (getAll st)"

definition clear :: "TraceStorage \<Rightarrow> TraceStorage" where
  "clear st = st\<lparr> traces := [] \<rparr>"

text \<open>
  \<open>getStats()\<close> formats floating-point aggregates for display and changes nothing; it is
  left out.
\<close>

text \<open>
  A sequence of \<open>store\<close> calls. \<open>store\<close> reads nothing of a trace but its id, which no
  method of \<open>Trace\<close> changes, so one heap of trace objects serves all the calls.
\<close>

fun store_all :: "Trace list \<Rightarrow> TraceStorage \<Rightarrow> ref list \<Rightarrow> exn + TraceStorage" where
  "store_all th st [] = Inr st"
| "store_all th st (r # rs) =
     (case store th st r of
        Inl e \<Rightarrow> Inl e
      | Inr st' \<Rightarrow> store_all th st' rs)"

text \<open>
  The number of the call, in a sequence of \<open>store\<close> calls made on a storage, that inserted
  the entry a key has at the end: the last call that found the key absent and left it
  present under the stored trace. \<open>None\<close> when no call of the sequence did.
\<close>

fun inserted_at :: "Trace list \<Rightarrow> TraceStorage \<Rightarrow> ref list \<Rightarrow> string \<Rightarrow> nat option" where
  "inserted_at th st [] k = None"
| "inserted_at th st (r # rs) k =
     (case store th st r of
        Inl e \<Rightarrow> None
      | Inr st' \<Rightarrow>
          (case inserted_at th st' rs k of
             Some n \<Rightarrow> Some (Suc n)
           | None \<Rightarrow> if get st k = None \<and> get st' k = Some r then Some 0 else None))"

text \<open>
  The storage keeps one entry per key, within its capacity of 1000.
\<close>

definition storage_ok :: "TraceStorage \<Rightarrow> bool" where
  "storage_ok st =
     (distinct (map fst (traces st)) \<and> maxTraces st = 1000 \<and> length (traces st) \<le> 1000)"

section \<open>MetricsCollector (src/core/MetricsCollector.ts)\<close>

text \<open>\<open>s.includes(sub)\<close> on strings.\<close>

fun starts_with :: "string \<Rightarrow> string \<Rightarrow> bool" where
  "starts_with s [] = True"
| "starts_with [] (c # cs) = False"
| "starts_with (x # xs) (c # cs) = (x = c \<and> starts_with xs cs)"

fun includes_str :: "string \<Rightarrow> string \<Rightarrow> bool" where
  "includes_str [] sub = (sub = [])"
| "includes_str (x # xs) sub = (starts_with (x # xs) sub \<or> includes_str xs sub)"

text \<open>The span objects behind a list of references.\<close>

fun deref_all :: "'a list \<Rightarrow> ref list \<Rightarrow> exn + 'a list" where
  "deref_all h [] = Inr []"
| "deref_all h (r # rs) =
     (case deref h r of
        None \<Rightarrow> Inl TypeError
      | Some s \<Rightarrow> (case deref_all h rs of Inl e \<Rightarrow> Inl e | Inr ss \<Rightarrow> Inr (s # ss)))"

text \<open>
  The \<open>forEach\<close> that looks for the slowest span: the candidate is replaced only by a span
  whose duration (0 when missing) is strictly greater.
\<close>

fun slowest_from :: "Span \<Rightarrow> Span list \<Rightarrow> Span" where
  "slowest_from slowestSpan [] = slowestSpan"
| "slowest_from slowestSpan (sp # rest) =
     slowest_from (if or0 (span_duration sp) > or0 (span_duration slowestSpan)
                   then sp else slowestSpan) rest"

text \<open>
  \<open>PerformanceMetrics\<close>. \<open>slowestOperation\<close> is the pair of a name and a duration, a database
  query the pair of a label and a duration. The average is a quotient of numbers, taken
  here over the reals. \<open>memoryUsed\<close> comes from \<open>process.memoryUsage().heapUsed\<close>, an input.
\<close>

record PerformanceMetrics =
  totalDuration :: int
  slowestOperation :: "string \<times> int"
  operationCount :: nat
  averageOperationTime :: real
  databaseQueries :: "(js_value \<times> int) list"
  memoryUsed :: real

definition query_label :: "Span \<Rightarrow> js_value" where
  "query_label sp =
     (case map_of (span_attributes sp) ''query'' of
        None \<Rightarrow> JStr (span_name sp)
      | Some v \<Rightarrow> if truthy v then v else JStr (span_name sp))"

text \<open>
  \<open>analyzeTrace(trace)\<close>. With an empty \<open>allSpans\<close> the candidate \<open>allSpans[0]\<close> is
  \<open>undefined\<close> and reading its name throws.
\<close>

definition analyzeTrace :: "Span list \<Rightarrow> Trace \<Rightarrow> real \<Rightarrow> exn + PerformanceMetrics" where
  "analyzeTrace h trace heapUsed =
     (case deref_all h (allSpans trace) of
        Inl e \<Rightarrow> Inl e
      | Inr [] \<Rightarrow> Inl TypeError
      | Inr (first # others) \<Rightarrow>
          (let spans = first # others;
               slowestSpan = slowest_from first spans;
               totalTime = foldl (\<lambda>sum span. sum + or0 (span_duration span)) 0 spans;
               averageTime = real_of_int totalTime / real (length spans);
               dbQueries =
                 map (\<lambda>span. (query_label span, or0 (span_duration span)))
                   (filter (\<lambda>span. includes_str (span_name span) ''database'' \<or>
                                     includes_str (span_name span) ''query'') spans)
           in Inr \<lparr> totalDuration = or0 (duration trace),
                    slowestOperation = (span_name slowestSpan, or0 (span_duration slowestSpan)),
                    operationCount = length spans,
                    averageOperationTime = averageTime,
                    databaseQueries = dbQueries,
                    memoryUsed = heapUsed / 1024 / 1024 \<rparr>))"

text \<open>\<open>printMetrics\<close> writes the metrics to the console; it is left out.\<close>

section \<open>Tracer (src/core/Tracer.ts)\<close>

datatype export_target = Console | Jaeger

record TracerConfig =
  serviceName :: string
  exportTo :: "export_target option"
  jaegerEndpoint :: "string option"
  captureMetrics :: "bool option"
  sampleRate :: "real option"

text \<open>
  The tracer holds its storage and the map of the open traces, from trace id to the trace
  object. The heap of the program has the span objects and the trace objects.
\<close>

record Tracer =
  config :: TracerConfig
  storage :: TraceStorage
  activeTraces :: "(string \<times> ref) list"

record heap =
  span_objs :: "Span list"
  trace_objs :: "Trace list"

text \<open>The constructor fills in the defaults of the options that are not given.\<close>

definition Tracer_new :: "TracerConfig \<Rightarrow> Tracer" where
  "Tracer_new c =
     \<lparr> config = c\<lparr> exportTo := (case exportTo c of None \<Rightarrow> Some Console | Some x \<Rightarrow> Some x),
                    captureMetrics := (case captureMetrics c of None \<Rightarrow> Some True | Some x \<Rightarrow> Some x),
                    sampleRate := (case sampleRate c of None \<Rightarrow> Some 1 | Some x \<Rightarrow> Some x) \<rparr>,
       storage = TraceStorage_new,
       activeTraces = [] \<rparr>"

definition mk_trace_id :: "int \<Rightarrow> string \<Rightarrow> string" where
  "mk_trace_id now_tid rnd_tid = ''trace-'' @ show_int now_tid @ ''-'' @ rnd_tid"

text \<open>
  \<open>startTrace(name)\<close>: \<open>now_tid\<close> and \<open>rnd_tid\<close> make the trace id, the other readings go to
  the constructor of the trace. It returns the new trace object.
\<close>

definition startTrace :: "heap \<Rightarrow> Tracer \<Rightarrow> string \<Rightarrow> int \<Rightarrow> string \<Rightarrow> int \<Rightarrow> int \<Rightarrow> string \<Rightarrow> int \<Rightarrow> heap \<times> Tracer \<times> ref" where
  "startTrace H tr name now_tid rnd_tid now_trace now_id rnd now_start =
     (let tid = mk_trace_id now_tid rnd_tid;
          (sh, t) = Trace_new (span_objs H) tid name now_trace now_id rnd now_start;
          trace = length (trace_objs H)
      in (\<lparr> span_objs = sh, trace_objs = trace_objs H @ [t] \<rparr>,
          tr\<lparr> activeTraces := assign tid trace (activeTraces tr) \<rparr>,
          trace))"

text \<open>\<open>Array.from(this.activeTraces.values())[0]\<close>: the first open trace, if any.\<close>

definition first_active :: "Tracer \<Rightarrow> ref option" where
  "first_active tr = (case activeTraces tr of [] \<Rightarrow> None | (_, trace) # _ \<Rightarrow> Some trace)"

text \<open>
  The methods of the tracer return the state they leave and what the caller gets: the
  exception thrown or the value returned.
\<close>

definition Tracer_startSpan :: "heap \<Rightarrow> Tracer \<Rightarrow> string \<Rightarrow> string option \<Rightarrow> int \<Rightarrow> string \<Rightarrow> int \<Rightarrow> (heap \<times> Tracer) \<times> (exn + ref)" where
  "Tracer_startSpan H tr name tid now_id rnd now_start =
     (case (case tid of
              None \<Rightarrow> first_active tr
            | Some k \<Rightarrow> if k = [] then first_active tr else Map_get (activeTraces tr) k) of
        None \<Rightarrow> ((H, tr), Inl (Throw (Error ''No active trace'')))
      | Some trace \<Rightarrow>
          (case deref (trace_objs H) trace of
             None \<Rightarrow> ((H, tr), Inl TypeError)
           | Some t \<Rightarrow>
               (case startSpan (span_objs H) t name now_id rnd now_start of
                  Inl e \<Rightarrow> ((H, tr), Inl e)
                | Inr (sh, t', new_span) \<Rightarrow>
                    ((\<lparr> span_objs = sh, trace_objs = (trace_objs H)[trace := t'] \<rparr>, tr),
                     Inr new_span))))"

definition Tracer_endSpan :: "heap \<Rightarrow> Tracer \<Rightarrow> js_error option \<Rightarrow> int \<Rightarrow> (heap \<times> Tracer) \<times> (exn + unit)" where
  "Tracer_endSpan H tr err now =
     (case first_active tr of
        None \<Rightarrow> ((H, tr), Inl (Throw (Error ''No active trace'')))
      | Some trace \<Rightarrow>
          (case deref (trace_objs H) trace of
             None \<Rightarrow> ((H, tr), Inl TypeError)
           | Some t \<Rightarrow>
               (case endSpan (span_objs H) t err now of
                  Inl e \<Rightarrow> ((H, tr), Inl e)
                | Inr (sh, t') \<Rightarrow>
                    ((\<lparr> span_objs = sh, trace_objs = (trace_objs H)[trace := t'] \<rparr>, tr),
                     Inr ()))))"

text \<open>
  \<open>finishTrace(traceId, error?)\<close>. After the three updates the source calls \<open>exportTrace\<close>,
  which prints the visualisation and the metrics of the trace to the console and changes
  neither the heap nor the tracer; the console is not part of this model.
\<close>

definition finishTrace :: "heap \<Rightarrow> Tracer \<Rightarrow> string \<Rightarrow> js_error option \<Rightarrow> int \<Rightarrow> (heap \<times> Tracer) \<times> (exn + ref)" where
  "finishTrace H tr tid err now =
     (case Map_get (activeTraces tr) tid of
        None \<Rightarrow> ((H, tr), Inl (Throw (Error (''Trace not found: '' @ tid))))
      | Some trace \<Rightarrow>
          (case deref (trace_objs H) trace of
             None \<Rightarrow> ((H, tr), Inl TypeError)
           | Some t \<Rightarrow>
               (let H1 = H\<lparr> trace_objs := (trace_objs H)[trace := finish t err now] \<rparr>
                in case store (trace_objs H1) (storage tr) trace of
                     Inl e \<Rightarrow> ((H1, tr), Inl e)
                   | Inr st \<Rightarrow>
                       ((H1, tr\<lparr> storage := st,
                                 activeTraces := Map_delete (activeTraces tr) tid \<rparr>),
                        Inr trace))))"

text \<open>
  \<open>instrument\<close> wraps an asynchronous function into \<open>startTrace\<close>, \<open>startSpan\<close>, \<open>end\<close> and
  \<open>finishTrace\<close> calls; it is left out, and so is \<open>getStats\<close>, which delegates to the
  storage.
\<close>

definition getTrace :: "Tracer \<Rightarrow> string \<Rightarrow> ref option" where
  "getTrace tr tid = get (storage tr) tid"

definition Tracer_getSlowTraces :: "heap \<Rightarrow> Tracer \<Rightarrow> real option \<Rightarrow> exn + ref list" where
  "Tracer_getSlowTraces H tr threshold =
     getSlowTraces (trace_objs H) (storage tr) (case threshold of None \<Rightarrow> 1000 | Some x \<Rightarrow> x)"

text \<open>
  The tracer is well formed in a heap: every open trace is an allocated trace object filed
  under its own id, and the storage is within its bounds.
\<close>

definition tracer_ok :: "heap \<Rightarrow> Tracer \<Rightarrow> bool" where
  "tracer_ok H tr =
     ((\<forall>p \<in> set (activeTraces tr).
          snd p < length (trace_objs H) \<and> traceId (trace_objs H ! snd p) = fst p) \<and>
      storage_ok (storage tr))"

section \<open>States used in examples\<close>

text \<open>A trace object with a given id.\<close>

definition sample_trace :: "string \<Rightarrow> Trace" where
  "sample_trace tid = snd (Trace_new [] tid ''request'' 0 0 ''0.5'' 0)"

text \<open>A heap of \<open>n\<close> trace objects with different ids.\<close>

definition numbered_traces :: "nat \<Rightarrow> Trace list" where
  "numbered_traces n = map (\<lambda>i. sample_trace (replicate i CHR ''x'')) [0..<n]"

text \<open>A new tracer after one \<open>startTrace\<close>.\<close>

definition sample_config :: TracerConfig where
  "sample_config = \<lparr> serviceName = ''svc'', exportTo = None, jaegerEndpoint = None,
                      captureMetrics = None, sampleRate = None \<rparr>"

definition sample_open :: "heap \<times> Tracer \<times> ref" where
  "sample_open =
     startTrace \<lparr> span_objs = [], trace_objs = [] \<rparr> (Tracer_new sample_config)
       ''checkout'' 1 ''0.1'' 1 1 ''0.5'' 1"

text \<open>The same tracer after a span was started in the open trace and ended.\<close>

definition sample_busy :: "heap \<times> Tracer" where
  "sample_busy =
     (case sample_open of
        (H, tr, _) \<Rightarrow>
          (case Tracer_startSpan H tr ''charge'' None 2 ''0.25'' 2 of
             ((H1, tr1), _) \<Rightarrow> fst (Tracer_endSpan H1 tr1 None 7)))"



text \<open>
  The spans and the trace of a checkout request: \<open>validate\<close> (50 ms), then \<open>charge\<close>
  (200 ms) with \<open>gateway-call\<close> (150 ms) inside; the root span is still open.
\<close>

definition checkout_spans :: "Span list" where
  "checkout_spans =
     [\<lparr> span_id = ''span-0-0.1'', span_traceId = ''t1'', span_name = ''checkout'',
        span_startTime = 0, span_endTime = None, span_duration = None,
        span_status = Started, span_error = None, span_attributes = [],
        span_children = [1, 2], span_parentId = None \<rparr>,
      \<lparr> span_id = ''span-0-0.2'', span_traceId = ''t1'', span_name = ''validate'',
        span_startTime = 0, span_endTime = Some 50, span_duration = Some 50,
        span_status = Completed, span_error = None, span_attributes = [],
        span_children = [], span_parentId = Some ''span-0-0.1'' \<rparr>,
      \<lparr> span_id = ''span-50-0.3'', span_traceId = ''t1'', span_name = ''charge'',
        span_startTime = 50, span_endTime = Some 250, span_duration = Some 200,
        span_status = Completed, span_error = None, span_attributes = [],
        span_children = [3], span_parentId = Some ''span-0-0.1'' \<rparr>,
      \<lparr> span_id = ''span-60-0.4'', span_traceId = ''t1'', span_name = ''gateway-call'',
        span_startTime = 60, span_endTime = Some 210, span_duration = Some 150,
        span_status = Completed, span_error = None, span_attributes = [],
        span_children = [], span_parentId = Some ''span-50-0.3'' \<rparr>]"

definition checkout_trace :: Trace where
  "checkout_trace =
     \<lparr> traceId = ''t1'', startTime = 0, endTime = None, duration = None,
       rootSpan = 0, allSpans = [0, 1, 2, 3], status = Running, currentSpan = 0 \<rparr>"

section \<open>Properties of Span\<close>

text \<open>
  C5. A span's duration is defined if and only if its status is not \<open>started\<close>, and a span
  in a terminal status has duration = endTime - startTime. The constructor establishes this,
  \<open>addChild\<close>, \<open>setAttribute\<close> and \<open>end\<close> keep it, and \<open>end\<close> always leaves the span in a
  terminal status with that duration.
\<close>

theorem span_duration_iff_not_started:
  "duration_inv (Span_new tid name parentId now_id rnd now_start)
   \<and> (duration_inv s \<longrightarrow> duration_inv (addChild s c))
   \<and> (duration_inv s \<longrightarrow> duration_inv (setAttribute s k v))
   \<and> duration_inv (Span_end s err now)
   \<and> span_status (Span_end s err now) \<noteq> Started
   \<and> span_endTime (Span_end s err now) = Some now
   \<and> span_duration (Span_end s err now) = Some (now - span_startTime s)
   \<and> span_startTime (Span_end s err now) = span_startTime s"
  by (simp add: duration_inv_def Span_new_def addChild_def setAttribute_def Span_end_def
      split: option.split)

theorem span_duration_iff_not_started_witness:
  "duration_inv (Span_end (Span_new ''t1'' ''op'' None 1 ''0.5'' 2) None 7)
   \<and> duration_inv (addChild (Span_end (Span_new ''t1'' ''op'' None 1 ''0.5'' 2) None 7) 1)
   \<and> duration_inv (setAttribute (Span_end (Span_new ''t1'' ''op'' None 1 ''0.5'' 2) None 7) ''k'' (JNum 1))
   \<and> span_status (Span_end (Span_new ''t1'' ''op'' None 1 ''0.5'' 2) None 7) = Completed
   \<and> span_duration (Span_end (Span_new ''t1'' ''op'' None 1 ''0.5'' 2) None 7) = Some 5"
proof -
  have inv: "duration_inv (Span_end (Span_new ''t1'' ''op'' None 1 ''0.5'' 2) None 7)"
    using span_duration_iff_not_started
      [where s = "Span_new ''t1'' ''op'' None 1 ''0.5'' 2" and err = None and now = 7]
    by simp
  show ?thesis
    using inv span_duration_iff_not_started
      [where s = "Span_end (Span_new ''t1'' ''op'' None 1 ''0.5'' 2) None 7"
         and c = 1 and k = "''k''" and v = "JNum 1"]
    by (simp add: Span_new_def Span_end_def)
qed

section \<open>Properties of Trace\<close>


lemma deref_Some_iff: "(deref h r = Some s) = (r < length h \<and> s = h ! r)"
  by (auto simp: deref_def)

lemma deref_None_iff: "(deref h r = None) = (length h \<le> r)"
  by (auto simp: deref_def)

lemma has_parent_in_iff:
  "has_parent_in h rs r =
     (r < length h \<and> (\<exists>p \<in> set rs. p < length h \<and> span_parentId (h ! r) = Some (span_id (h ! p))))"
  by (auto simp: has_parent_in_def deref_def)

lemma has_parent_in_mono:
  assumes "has_parent_in h rs r" and "same_links h h'" and "set rs \<subseteq> set rs'"
  shows "has_parent_in h' rs' r"
proof -
  from assms(1) obtain p where p: "p \<in> set rs" "p < length h" "r < length h"
      "span_parentId (h ! r) = Some (span_id (h ! p))"
    by (auto simp: has_parent_in_iff)
  from assms(2) p have "r < length h'" "p < length h'"
      "span_parentId (h' ! r) = Some (span_id (h' ! p))"
    by (simp_all add: same_links_def)
  with p(1) assms(3) show ?thesis by (auto simp: has_parent_in_iff)
qed

lemma find_span_valid:
  assumes "\<forall>r \<in> set rs. r < length h"
  shows "\<exists>res. find_span h rs pid = Inr res \<and>
           (\<forall>p. res = Some p \<longrightarrow> p \<in> set rs \<and> span_id (h ! p) = pid)"
  using assms by (induction rs) (auto simp: deref_def)

lemma Trace_new_ok: "Trace_new h tid nm n0 n1 rnd n2 = (h', t) \<Longrightarrow> trace_ok h' t"
  by (auto simp: Trace_new_def trace_ok_def linked_def Let_def)

lemma same_links_startSpan:
  "c < length h \<Longrightarrow> same_links h ((h @ [s])[c := addChild (h ! c) x])"
  by (auto simp: same_links_def addChild_def nth_list_update nth_append)

lemma same_links_endSpan:
  "same_links h (h[c := Span_end (h ! c) err now])"
proof -
  have "span_id (h[c := Span_end (h ! c) err now] ! r) = span_id (h ! r)
      \<and> span_parentId (h[c := Span_end (h ! c) err now] ! r) = span_parentId (h ! r)"
    if "r < length h" for r
    using that by (cases "r = c") (simp_all add: Span_end_def)
  then show ?thesis by (simp add: same_links_def)
qed

lemma startSpan_ok:
  assumes "trace_ok h t"
  shows "\<exists>h' t' r. startSpan h t nm n1 rnd n2 = Inr (h', t', r) \<and> trace_ok h' t'"
proof -
  let ?c = "currentSpan t"
  have c: "?c < length h" and cin: "?c \<in> set (allSpans t)" using assms by (auto simp: trace_ok_def)
  let ?new = "Span_new (traceId t) nm (Some (span_id (h ! ?c))) n1 rnd n2"
  let ?h' = "(h @ [?new])[?c := addChild (h ! ?c) (length h)]"
  let ?t' = "t\<lparr> allSpans := allSpans t @ [length h], currentSpan := length h \<rparr>"
  have eq: "startSpan h t nm n1 rnd n2 = Inr (?h', ?t', length h)"
    using c by (simp add: startSpan_def deref_def Let_def)
  have sl: "same_links h ?h'" using c by (rule same_links_startSpan)
  have old: "has_parent_in ?h' (allSpans ?t') r" if "has_parent_in h (allSpans t) r" for r
    using that sl by (rule has_parent_in_mono) auto
  have new: "has_parent_in ?h' (allSpans ?t') (length h)"
  proof -
    have "?h' ! length h = ?new" using c by (simp add: nth_append)
    moreover have "span_id (?h' ! ?c) = span_id (h ! ?c)" using c by (simp add: addChild_def nth_append)
    ultimately show ?thesis using c cin
      by (auto simp: has_parent_in_iff Span_new_def intro!: bexI[of _ ?c])
  qed
  have ne: "allSpans t \<noteq> []" and root: "allSpans t ! 0 = rootSpan t"
    using assms by (auto simp: trace_ok_def linked_def)
  have "linked ?h' ?t'"
    unfolding linked_def using assms ne root old new
    by (auto simp: trace_ok_def linked_def nth_append)
  moreover have "\<forall>r \<in> set (allSpans ?t'). r < length ?h'"
    using assms by (auto simp: trace_ok_def)
  ultimately have "trace_ok ?h' ?t'" by (simp add: trace_ok_def)
  with eq show ?thesis by blast
qed

lemma endSpan_ok:
  assumes "trace_ok h t"
  shows "\<exists>h' t'. endSpan h t err now = Inr (h', t') \<and> trace_ok h' t'"
proof -
  let ?c = "currentSpan t"
  have c: "?c < length h" using assms by (auto simp: trace_ok_def)
  let ?h' = "h[?c := Span_end (h ! ?c) err now]"
  have sl: "same_links h ?h'" by (rule same_links_endSpan)
  have valid: "\<forall>r \<in> set (allSpans t). r < length ?h'" using assms by (auto simp: trace_ok_def)
  have lk: "linked ?h' t'" if "allSpans t' = allSpans t" "rootSpan t' = rootSpan t" for t'
    using assms that has_parent_in_mono[OF _ sl subset_refl]
    by (auto simp: trace_ok_def linked_def)
  have stay: "trace_ok ?h' t" using assms lk valid by (simp add: trace_ok_def)
  have move: "trace_ok ?h' (t\<lparr>currentSpan := p\<rparr>)" if "p \<in> set (allSpans t)" for p
    using that lk valid by (simp add: trace_ok_def)
  show ?thesis
  proof (cases "span_parentId (h ! ?c)")
    case None
    then show ?thesis using c stay by (simp add: endSpan_def deref_def Let_def)
  next
    case (Some pid)
    obtain res where res: "find_span ?h' (allSpans t) pid = Inr res"
      and resP: "\<forall>p. res = Some p \<longrightarrow> p \<in> set (allSpans t) \<and> span_id (?h' ! p) = pid"
      using find_span_valid[OF valid] by blast
    show ?thesis
      using c Some stay move res resP
      by (cases res) (auto simp: endSpan_def deref_def Let_def)
  qed
qed

lemma Trace_run_ok:
  "trace_ok h t \<Longrightarrow> \<exists>h' t'. Trace_run (h, t) ops = Inr (h', t') \<and> trace_ok h' t'"
proof (induction ops arbitrary: h t)
  case Nil
  then show ?case by simp
next
  case (Cons x xs)
  show ?case
  proof (cases x)
    case (StartSpan nm n1 rnd n2)
    obtain h1 t1 r where "startSpan h t nm n1 rnd n2 = Inr (h1, t1, r)" "trace_ok h1 t1"
      using startSpan_ok[OF Cons.prems] by blast
    then show ?thesis using Cons.IH[of h1 t1] StartSpan by simp
  next
    case (EndSpan err now)
    obtain h1 t1 where "endSpan h t err now = Inr (h1, t1)" "trace_ok h1 t1"
      using endSpan_ok[OF Cons.prems] by blast
    then show ?thesis using Cons.IH[of h1 t1] EndSpan by simp
  qed
qed

text \<open>
  C1. A trace made by the constructor and then driven by any sequence of \<open>startSpan\<close> and
  \<open>endSpan\<close> calls never throws, \<open>allSpans[0]\<close> is its root span, and every span of
  \<open>allSpans\<close> other than the root has as parent id the id of a span of \<open>allSpans\<close>.
\<close>

theorem root_first_and_parents_present:
  "\<exists>h t. Trace_run (Trace_new h0 tid nm n0 n1 rnd n2) ops = Inr (h, t) \<and> linked h t"
proof -
  obtain h1 t1 where new: "Trace_new h0 tid nm n0 n1 rnd n2 = (h1, t1)" by (cases "Trace_new h0 tid nm n0 n1 rnd n2")
  then have "trace_ok h1 t1" by (rule Trace_new_ok)
  then show ?thesis using Trace_run_ok[of h1 t1 ops] new by (auto simp: trace_ok_def)
qed

theorem root_first_and_parents_present_witness:
  "\<exists>h t. Trace_run (Trace_new [] ''t1'' ''root'' 1 1 ''0.5'' 1)
            [StartSpan ''a'' 2 ''0.25'' 2, StartSpan ''b'' 3 ''0.75'' 3, EndSpan None 4, EndSpan None 5] = Inr (h, t)
         \<and> linked h t \<and> allSpans t = [0, 1, 2] \<and> rootSpan t = 0"
  using root_first_and_parents_present [of "[]" "''t1''" "''root''" 1 1 "''0.5''" 1
      "[StartSpan ''a'' 2 ''0.25'' 2, StartSpan ''b'' 3 ''0.75'' 3, EndSpan None 4, EndSpan None 5]"]
  by (simp add: Trace_new_def startSpan_def endSpan_def deref_def Let_def Span_new_def addChild_def
      Span_end_def mk_span_id_def show_int_def digit_char_def)














lemma start_id_StartSpan: "start_id (StartSpan nm a r c) = mk_span_id a r"
  by (simp add: start_id_def)



























lemma filter_refs_valid:
  "\<forall>r \<in> set rs. r < length h \<Longrightarrow> filter_refs P h rs = Inr (filter (\<lambda>r. P (h ! r)) rs)"
  by (induction rs) (auto simp: deref_def)

text \<open>
  C6, as stated, fails for a negative threshold: a span that is still running has no
  duration, the filter reads that as 0, and 0 exceeds the threshold. On a new trace
  \<open>getSlowOperations(-1)\<close> returns the running root span.
\<close>

theorem getSlowOperations_running_span_counterexample:
  "getSlowOperations (fst (Trace_new [] ''t1'' ''root'' 1 1 ''0.5'' 1))
       (snd (Trace_new [] ''t1'' ''root'' 1 1 ''0.5'' 1)) (- 1) = Inr [0]
   \<and> map_option span_duration (deref (fst (Trace_new [] ''t1'' ''root'' 1 1 ''0.5'' 1)) 0) = Some None
   \<and> map_option span_status (deref (fst (Trace_new [] ''t1'' ''root'' 1 1 ''0.5'' 1)) 0) = Some Started"
  by (simp add: getSlowOperations_def Trace_new_def Let_def deref_def Span_new_def or0_def)

text \<open>
  C6, amended. \<open>getSlowOperations(thresholdMs)\<close> returns exactly the subsequence of
  \<open>allSpans\<close>, in the original order, of the spans whose duration, read as 0 when missing,
  strictly exceeds the threshold. For a threshold of 0 or more these are the spans with a
  duration above the threshold, and a running span is never among them; for a negative
  threshold every span without a duration is among them.
\<close>

theorem getSlowOperations_filter:
  assumes "\<forall>r \<in> set (allSpans t). r < length h"
  shows "getSlowOperations h t th =
           Inr (filter (\<lambda>r. real_of_int (or0 (span_duration (h ! r))) > th) (allSpans t))
       \<and> (0 \<le> th \<longrightarrow>
            getSlowOperations h t th =
              Inr (filter (\<lambda>r. case span_duration (h ! r) of
                                 None \<Rightarrow> False
                               | Some d \<Rightarrow> real_of_int d > th) (allSpans t)))
       \<and> (th < 0 \<longrightarrow>
            getSlowOperations h t th =
              Inr (filter (\<lambda>r. case span_duration (h ! r) of
                                 None \<Rightarrow> True
                               | Some d \<Rightarrow> real_of_int d > th) (allSpans t)))"
proof -
  have a: "getSlowOperations h t th =
           Inr (filter (\<lambda>r. real_of_int (or0 (span_duration (h ! r))) > th) (allSpans t))"
    unfolding getSlowOperations_def using assms by (rule filter_refs_valid)
  have b: "(real_of_int (or0 d) > th) = (case d of None \<Rightarrow> False | Some x \<Rightarrow> real_of_int x > th)"
    if "0 \<le> th" for d
    using that by (cases d) (simp_all add: or0_def)
  have c: "(real_of_int (or0 d) > th) = (case d of None \<Rightarrow> True | Some x \<Rightarrow> real_of_int x > th)"
    if "th < 0" for d
    using that by (cases d) (simp_all add: or0_def)
  show ?thesis using a b c by simp
qed

theorem getSlowOperations_filter_witness:
  "list_all (\<lambda>r. r < length [Span_new ''t1'' ''root'' None 1 ''0.5'' 1,
                   Span_end (Span_new ''t1'' ''a'' (Some ''span-1-0.5'') 2 ''0.25'' 2) None 300])
      (allSpans \<lparr>traceId = ''t1'', startTime = 1, endTime = None, duration = None,
         rootSpan = 0, allSpans = [0, 1], status = Running, currentSpan = 0\<rparr>)
   \<and> getSlowOperations [Span_new ''t1'' ''root'' None 1 ''0.5'' 1,
                         Span_end (Span_new ''t1'' ''a'' (Some ''span-1-0.5'') 2 ''0.25'' 2) None 300]
        \<lparr>traceId = ''t1'', startTime = 1, endTime = None, duration = None,
         rootSpan = 0, allSpans = [0, 1], status = Running, currentSpan = 0\<rparr> 100 = Inr [1]"
  using getSlowOperations_filter
    [of "\<lparr>traceId = ''t1'', startTime = 1, endTime = None, duration = None,
         rootSpan = 0, allSpans = [0, 1], status = Running, currentSpan = 0\<rparr>"
        "[Span_new ''t1'' ''root'' None 1 ''0.5'' 1,
          Span_end (Span_new ''t1'' ''a'' (Some ''span-1-0.5'') 2 ''0.25'' 2) None 300]" 100]
  by (simp add: Span_new_def Span_end_def or0_def)

section \<open>Properties of TraceStorage\<close>

lemma assign_absent: "k \<notin> fst ` set m \<Longrightarrow> assign k v m = m @ [(k, v)]"
  by (induction m) auto

lemma assign_keys_present: "k \<in> fst ` set m \<Longrightarrow> map fst (assign k v m) = map fst m"
  by (induction m) auto

lemma assign_present_index:
  "k \<in> fst ` set m \<Longrightarrow>
     \<exists>i < length m. fst (m ! i) = k \<and> (\<forall>j < i. fst (m ! j) \<noteq> k) \<and> assign k v m = m[i := (k, v)]"
proof (induction m)
  case Nil
  then show ?case by simp
next
  case (Cons p ps)
  show ?case
  proof (cases "fst p = k")
    case True
    then have "fst ((p # ps) ! 0) = k \<and> (\<forall>j < 0. fst ((p # ps) ! j) \<noteq> k)
        \<and> assign k v (p # ps) = (p # ps)[0 := (k, v)]" by simp
    then show ?thesis by blast
  next
    case False
    then have "k \<in> fst ` set ps" using Cons.prems by auto
    then obtain i where i: "i < length ps" "fst (ps ! i) = k" "\<forall>j < i. fst (ps ! j) \<noteq> k"
        "assign k v ps = ps[i := (k, v)]"
      using Cons.IH by blast
    have "\<forall>j < Suc i. fst ((p # ps) ! j) \<noteq> k"
      using False i(3) by (auto simp: nth_Cons split: nat.splits)
    then have "Suc i < length (p # ps) \<and> fst ((p # ps) ! Suc i) = k
        \<and> (\<forall>j < Suc i. fst ((p # ps) ! j) \<noteq> k)
        \<and> assign k v (p # ps) = (p # ps)[Suc i := (k, v)]"
      using False i by simp
    then show ?thesis by blast
  qed
qed

lemma map_of_assign: "map_of (assign k v m) = (map_of m)(k \<mapsto> v)"
  by (induction m) (auto simp: fun_eq_iff)

lemma Map_delete_head:
  "distinct (map fst (p # ps)) \<Longrightarrow> Map_delete (p # ps) (fst p) = ps"
proof -
  assume d: "distinct (map fst (p # ps))"
  then have "fst p \<notin> fst ` set ps" by simp
  then have "\<forall>q \<in> set ps. fst q \<noteq> fst p" by (metis image_eqI)
  then have "filter (\<lambda>q. fst q \<noteq> fst p) ps = ps" by (simp add: filter_id_conv)
  then show ?thesis by (simp add: Map_delete_def)
qed

lemma get_snoc_absent:
  "k \<notin> fst ` set m \<Longrightarrow> get (st\<lparr>traces := m @ [(k, v)]\<rparr>) k = Some v"
  by (induction m) (auto simp: get_def Map_get_def)

lemma map_of_Map_delete: "map_of (Map_delete m k) = (map_of m)(k := None)"
  by (induction m) (auto simp: Map_delete_def fun_eq_iff)

lemma store_step:
  assumes "storage_ok st" and "deref th r = Some t"
  shows "store th st r =
           Inr (st\<lparr> traces :=
                  (if traceId t \<in> fst ` set (traces st) then assign (traceId t) r (traces st)
                   else if length (traces st) < 1000 then traces st @ [(traceId t, r)]
                   else tl (traces st) @ [(traceId t, r)]) \<rparr>)"
proof -
  let ?k = "traceId t"
  let ?m = "traces st"
  have ok: "distinct (map fst ?m)" "maxTraces st = 1000" "length ?m \<le> 1000"
    using assms(1) by (simp_all add: storage_ok_def)
  show ?thesis
  proof (cases "?k \<in> fst ` set ?m")
    case True
    then have "length (assign ?k r ?m) = length ?m"
      using assign_keys_present[OF True, of r] by (metis length_map)
    then show ?thesis using True ok assms(2) by (simp add: store_def Let_def)
  next
    case False
    then have a: "assign ?k r ?m = ?m @ [(?k, r)]" by (rule assign_absent)
    show ?thesis
    proof (cases "length ?m < 1000")
      case True
      then show ?thesis using False a ok assms(2) by (simp add: store_def Let_def)
    next
      case full: False
      then have len: "length ?m = 1000" using ok by simp
      then obtain k0 v0 ps where m: "?m = (k0, v0) # ps" by (cases ?m) auto
      have d: "distinct (map fst ((k0, v0) # (ps @ [(?k, r)])))"
        using ok(1) False m by auto
      have "Map_delete ((k0, v0) # (ps @ [(?k, r)])) k0 = ps @ [(?k, r)]"
        using Map_delete_head[OF d] by simp
      then show ?thesis
        using False full a ok len assms(2) m by (simp add: store_def Let_def)
    qed
  qed
qed

lemma store_ok:
  assumes "storage_ok st" and "deref th r = Some t"
  shows "\<exists>st'. store th st r = Inr st' \<and> storage_ok st' \<and> get st' (traceId t) = Some r"
proof -
  let ?k = "traceId t"
  let ?m = "traces st"
  have ok: "distinct (map fst ?m)" "maxTraces st = 1000" "length ?m \<le> 1000"
    using assms(1) by (simp_all add: storage_ok_def)
  note step = store_step[OF assms]
  show ?thesis
  proof (cases "?k \<in> fst ` set ?m")
    case True
    have "storage_ok (st\<lparr>traces := assign ?k r ?m\<rparr>)"
      using ok assign_keys_present[OF True, of r]
      by (simp add: storage_ok_def) (metis length_map)
    moreover have "get (st\<lparr>traces := assign ?k r ?m\<rparr>) ?k = Some r"
      by (simp add: get_def Map_get_def map_of_assign)
    ultimately show ?thesis using step True by simp
  next
    case False
    show ?thesis
    proof (cases "length ?m < 1000")
      case True
      have "storage_ok (st\<lparr>traces := ?m @ [(?k, r)]\<rparr>)"
        using ok True False by (simp add: storage_ok_def)
      moreover have "get (st\<lparr>traces := ?m @ [(?k, r)]\<rparr>) ?k = Some r"
        using False by (rule get_snoc_absent)
      ultimately show ?thesis using step True False by simp
    next
      case full: False
      then obtain p ps where m: "?m = p # ps" using ok by (cases ?m) auto
      have "storage_ok (st\<lparr>traces := tl ?m @ [(?k, r)]\<rparr>)"
        using ok False m by (auto simp: storage_ok_def)
      moreover have "?k \<notin> fst ` set (tl ?m)" using False m by auto
      then have "get (st\<lparr>traces := tl ?m @ [(?k, r)]\<rparr>) ?k = Some r"
        by (rule get_snoc_absent)
      ultimately show ?thesis using step full False by simp
    qed
  qed
qed

lemma store_all_ok:
  assumes "storage_ok st" and "\<forall>r \<in> set rs. r < length th"
  shows "\<exists>st'. store_all th st rs = Inr st' \<and> storage_ok st'"
  using assms
proof (induction rs arbitrary: st)
  case Nil
  then show ?case by simp
next
  case (Cons r rs)
  have "deref th r = Some (th ! r)" using Cons.prems(2) by (simp add: deref_def)
  then obtain st1 where "store th st r = Inr st1" "storage_ok st1"
    using store_ok[OF Cons.prems(1)] by blast
  then show ?case using Cons.IH[of st1] Cons.prems(2) by simp
qed

lemma TraceStorage_new_ok: "storage_ok TraceStorage_new"
  by (simp add: storage_ok_def TraceStorage_new_def)

lemma get_None_iff: "(get st k = None) = (k \<notin> set (map fst (traces st)))"
  by (simp add: get_def Map_get_def map_of_eq_None_iff)

lemma store_keys:
  assumes "storage_ok st" and "deref th r = Some t" and "store th st r = Inr st1"
  shows "(traceId t \<in> set (map fst (traces st)) \<and> map fst (traces st1) = map fst (traces st))
       \<or> (traceId t \<notin> set (map fst (traces st))
            \<and> (\<exists>e. map fst (traces st1) = drop e (map fst (traces st)) @ [traceId t]))"
proof (cases "traceId t \<in> fst ` set (traces st)")
  case True
  then have "traces st1 = assign (traceId t) r (traces st)"
    using store_step[OF assms(1,2)] assms(3) by auto
  then show ?thesis using True assign_keys_present[OF True, of r] by simp
next
  case False
  show ?thesis
  proof (cases "length (traces st) < 1000")
    case True
    then have "traces st1 = traces st @ [(traceId t, r)]"
      using store_step[OF assms(1,2)] assms(3) False by auto
    then have "\<exists>e. map fst (traces st1) = drop e (map fst (traces st)) @ [traceId t]"
      by (intro exI[of _ 0]) simp
    then show ?thesis using False by simp
  next
    case full: False
    then have "traces st1 = tl (traces st) @ [(traceId t, r)]"
      using store_step[OF assms(1,2)] assms(3) False by auto
    then have "\<exists>e. map fst (traces st1) = drop e (map fst (traces st)) @ [traceId t]"
      by (intro exI[of _ 1]) (simp add: drop_Suc map_tl)
    then show ?thesis using False by simp
  qed
qed

lemma stamps_sorted:
  assumes "storage_ok st" and "\<forall>r \<in> set rs. r < length th" and "store_all th st rs = Inr st'"
  shows "\<exists>n ks ns. map fst (traces st') = drop n (map fst (traces st)) @ ks
           \<and> (\<forall>k \<in> set (drop n (map fst (traces st))). inserted_at th st rs k = None)
           \<and> map (inserted_at th st rs) ks = map Some ns
           \<and> sorted_wrt (<) ns"
  using assms
proof (induction rs arbitrary: st)
  case Nil
  then have "map fst (traces st') = drop 0 (map fst (traces st)) @ []
      \<and> (\<forall>k \<in> set (drop 0 (map fst (traces st))). inserted_at th st [] k = None)
      \<and> map (inserted_at th st []) [] = map Some [] \<and> sorted_wrt (<) ([] :: nat list)"
    by simp
  then show ?case by blast
next
  case (Cons r rs)
  let ?t = "th ! r"
  let ?kr = "traceId ?t"
  let ?K = "map fst (traces st)"
  have d: "deref th r = Some ?t" using Cons.prems(2) by (simp add: deref_def)
  obtain st1 where st1: "store th st r = Inr st1" "storage_ok st1" "get st1 ?kr = Some r"
    using store_ok[OF Cons.prems(1) d] by blast
  have run: "store_all th st1 rs = Inr st'" using Cons.prems(3) st1(1) by simp
  obtain n1 ks1 ns1 where ih:
      "map fst (traces st') = drop n1 (map fst (traces st1)) @ ks1"
      "\<forall>k \<in> set (drop n1 (map fst (traces st1))). inserted_at th st1 rs k = None"
      "map (inserted_at th st1 rs) ks1 = map Some ns1"
      "sorted_wrt (<) ns1"
    using Cons.IH[OF st1(2) _ run] Cons.prems(2) by auto
  have stamp: "inserted_at th st (r # rs) k =
      (case inserted_at th st1 rs k of
         Some n \<Rightarrow> Some (Suc n)
       | None \<Rightarrow> if get st k = None \<and> get st1 k = Some r then Some 0 else None)" for k
    using st1(1) by simp
  have new_stamps: "map (inserted_at th st (r # rs)) ks1 = map Some (map Suc ns1)"
  proof -
    have "inserted_at th st (r # rs) k = map_option Suc (inserted_at th st1 rs k)"
      if "inserted_at th st1 rs k \<noteq> None" for k
      using that by (cases "inserted_at th st1 rs k") (simp_all add: stamp del: inserted_at.simps)
    moreover have "\<forall>k \<in> set ks1. inserted_at th st1 rs k \<noteq> None"
    proof
      fix k assume "k \<in> set ks1"
      then have "inserted_at th st1 rs k \<in> set (map Some ns1)"
        using ih(3) by (metis image_eqI list.set_map)
      then show "inserted_at th st1 rs k \<noteq> None" by auto
    qed
    ultimately have "map (inserted_at th st (r # rs)) ks1
        = map (map_option Suc) (map (inserted_at th st1 rs) ks1)"
      by simp
    then show ?thesis using ih(3) by (simp add: comp_def)
  qed
  have sorted_new: "sorted_wrt (<) (map Suc ns1)"
    using ih(4) by (simp add: sorted_wrt_map)
  have old_None: "inserted_at th st (r # rs) k = None"
    if "inserted_at th st1 rs k = None" "k \<in> set ?K" for k
    using that by (simp add: stamp get_None_iff del: inserted_at.simps)
  from store_keys[OF Cons.prems(1) d st1(1)]
  show ?case
  proof (elim disjE conjE exE)
    assume same: "map fst (traces st1) = ?K"
    have "\<forall>k \<in> set (drop n1 ?K). inserted_at th st (r # rs) k = None"
      using ih(2) same old_None by (metis in_set_dropD)
    then show ?thesis using ih(1) same new_stamps sorted_new by metis
  next
    fix e assume absent: "?kr \<notin> set ?K" and app: "map fst (traces st1) = drop e ?K @ [?kr]"
    show ?thesis
    proof (cases "n1 \<le> length (drop e ?K)")
      case True
      have dr: "drop n1 (map fst (traces st1)) = drop (n1 + e) ?K @ [?kr]"
        using True app by (simp add: add.commute)
      have k1: "map fst (traces st') = drop (n1 + e) ?K @ (?kr # ks1)"
        using ih(1) dr by simp
      have k2: "\<forall>k \<in> set (drop (n1 + e) ?K). inserted_at th st (r # rs) k = None"
      proof
        fix k assume k: "k \<in> set (drop (n1 + e) ?K)"
        then have "inserted_at th st1 rs k = None" using ih(2) dr by simp
        moreover have "k \<in> set ?K" using k by (rule in_set_dropD)
        ultimately show "inserted_at th st (r # rs) k = None" by (rule old_None)
      qed
      have "inserted_at th st1 rs ?kr = None" using ih(2) dr by simp
      then have k0: "inserted_at th st (r # rs) ?kr = Some 0"
        using absent st1(3) by (simp add: stamp get_None_iff del: inserted_at.simps)
      have k3: "map (inserted_at th st (r # rs)) (?kr # ks1) = map Some (0 # map Suc ns1)"
        using k0 new_stamps by simp
      have k4: "sorted_wrt (<) (0 # map Suc ns1)" using sorted_new by auto
      show ?thesis using k1 k2 k3 k4 by blast
    next
      case False
      then have e1: "drop n1 (map fst (traces st1)) = []" using app by simp
      have e2: "drop (n1 + e) ?K = []" using False by simp
      have "map fst (traces st') = drop (n1 + e) ?K @ ks1" using ih(1) e1 e2 by simp
      moreover have "\<forall>k \<in> set (drop (n1 + e) ?K). inserted_at th st (r # rs) k = None"
        using e2 by simp
      ultimately show ?thesis using new_stamps sorted_new by blast
    qed
  qed
qed

lemma store_all_fresh:
  assumes "storage_ok st" and "\<forall>r \<in> set rs. r < length th"
    and "distinct (map (\<lambda>r. traceId (th ! r)) rs)"
    and "\<forall>r \<in> set rs. traceId (th ! r) \<notin> fst ` set (traces st)"
    and "length (traces st) + length rs \<le> 1000"
  shows "store_all th st rs
           = Inr (st\<lparr> traces := traces st @ map (\<lambda>r. (traceId (th ! r), r)) rs \<rparr>)"
  using assms
proof (induction rs arbitrary: st)
  case Nil
  then show ?case by simp
next
  case (Cons r rs)
  let ?k = "traceId (th ! r)"
  let ?st1 = "st\<lparr> traces := traces st @ [(?k, r)] \<rparr>"
  have d: "deref th r = Some (th ! r)" using Cons.prems(2) by (simp add: deref_def)
  have absent: "?k \<notin> fst ` set (traces st)" using Cons.prems(4) by simp
  have len: "length (traces st) < 1000" using Cons.prems(5) by simp
  have s1: "store th st r = Inr ?st1"
    using store_step[OF Cons.prems(1) d] absent len by simp
  have ok1: "storage_ok ?st1" using store_ok[OF Cons.prems(1) d] s1 by auto
  have "?k \<notin> (\<lambda>r. traceId (th ! r)) ` set rs" using Cons.prems(3) by simp
  then have "\<forall>x \<in> set rs. ?k \<noteq> traceId (th ! x)" by (simp add: image_iff)
  then have "traceId (th ! x) \<noteq> ?k" if "x \<in> set rs" for x
    using that by fastforce
  then have fresh: "\<forall>x \<in> set rs. traceId (th ! x) \<notin> fst ` set (traces ?st1)"
    using Cons.prems(4) by auto
  have "store_all th ?st1 rs
          = Inr (?st1\<lparr> traces := traces ?st1 @ map (\<lambda>r. (traceId (th ! r), r)) rs \<rparr>)"
    using Cons.IH[OF ok1 _ _ fresh] Cons.prems(2,3,5) by simp
  then show ?case using s1 by simp
qed

lemma numbered_traces_id:
  "i < n \<Longrightarrow> traceId (numbered_traces n ! i) = replicate i CHR ''x''"
  by (simp add: numbered_traces_def sample_trace_def Trace_new_def Let_def)

lemma numbered_traces_length: "length (numbered_traces n) = n"
  by (simp add: numbered_traces_def)

lemma numbered_traces_stored:
  assumes "m \<le> n" and "m \<le> 1000"
  shows "store_all (numbered_traces n) TraceStorage_new [0..<m]
     = Inr \<lparr> traces = map (\<lambda>i. (replicate i CHR ''x'', i)) [0..<m], maxTraces = 1000 \<rparr>"
proof -
  let ?th = "numbered_traces n"
  have ids: "map (\<lambda>r. traceId (?th ! r)) [0..<m] = map (\<lambda>i. replicate i CHR ''x'') [0..<m]"
    using assms(1) by (intro map_cong) (simp_all add: numbered_traces_id)
  have "inj_on (\<lambda>i. replicate i CHR ''x'') (set [0..<m])"
    by (rule inj_onI) (metis length_replicate)
  then have dist: "distinct (map (\<lambda>r. traceId (?th ! r)) [0..<m])"
    unfolding ids by (simp add: distinct_map)
  have pairs: "map (\<lambda>r. (traceId (?th ! r), r)) [0..<m]
      = map (\<lambda>i. (replicate i CHR ''x'', i)) [0..<m]"
    using assms(1) by (intro map_cong) (simp_all add: numbered_traces_id)
  have "store_all ?th TraceStorage_new [0..<m]
      = Inr (TraceStorage_new\<lparr> traces := traces TraceStorage_new
               @ map (\<lambda>r. (traceId (?th ! r), r)) [0..<m] \<rparr>)"
    using dist assms by (intro store_all_fresh TraceStorage_new_ok)
      (simp_all add: numbered_traces_length TraceStorage_new_def)
  then show ?thesis unfolding pairs by (simp add: TraceStorage_new_def)
qed

text \<open>
  C3. After any sequence of \<open>store\<close> calls on a new storage the map holds at most 1000
  entries, and its entries stand in the order of the calls that inserted them, the earliest
  first. One more \<open>store\<close> evicts an entry only when the map is full and the key is new,
  and then it removes exactly the first entry of the map, which is the one inserted the
  longest ago among those present, and appends the new one; otherwise nothing is evicted.
  The order is that of the insertions: no field of a trace other than its id is read.
\<close>

theorem store_bounded_fifo:
  assumes "\<forall>r \<in> set rs. r < length th" and "r < length th"
  shows "\<exists>st ns. store_all th TraceStorage_new rs = Inr st
           \<and> length (traces st) \<le> 1000
           \<and> map (inserted_at th TraceStorage_new rs) (map fst (traces st)) = map Some ns
           \<and> sorted_wrt (<) ns
           \<and> store th st r =
               Inr (st\<lparr> traces :=
                      (if traceId (th ! r) \<in> fst ` set (traces st)
                       then assign (traceId (th ! r)) r (traces st)
                       else if length (traces st) < 1000
                       then traces st @ [(traceId (th ! r), r)]
                       else tl (traces st) @ [(traceId (th ! r), r)]) \<rparr>)"
proof -
  obtain st where st: "store_all th TraceStorage_new rs = Inr st" "storage_ok st"
    using store_all_ok[OF TraceStorage_new_ok assms(1)] by blast
  obtain n ks ns where o: "map fst (traces st) = drop n (map fst (traces TraceStorage_new)) @ ks"
      "map (inserted_at th TraceStorage_new rs) ks = map Some ns" "sorted_wrt (<) ns"
    using stamps_sorted[OF TraceStorage_new_ok assms(1) st(1)] by blast
  have ks: "map fst (traces st) = ks" using o(1) by (simp add: TraceStorage_new_def)
  have "deref th r = Some (th ! r)" using assms(2) by (simp add: deref_def)
  from store_step[OF st(2) this] st o(2,3) ks show ?thesis by (auto simp: storage_ok_def)
qed

theorem store_bounded_fifo_witness:
  "list_all (\<lambda>r. r < length (numbered_traces 1001)) [0..<1000]
   \<and> 1000 < length (numbered_traces 1001)
   \<and> (\<exists>st. store_all (numbered_traces 1001) TraceStorage_new [0..<1000] = Inr st
          \<and> length (traces st) = 1000
          \<and> get st [] = Some 0
          \<and> store (numbered_traces 1001) st 1000
              = Inr (st\<lparr> traces := tl (traces st) @ [(replicate 1000 CHR ''x'', 1000)] \<rparr>))"
proof -
  let ?th = "numbered_traces 1001"
  let ?m = "1000 :: nat"
  let ?S = "\<lparr> traces = map (\<lambda>i. (replicate i CHR ''x'', i)) [0..<?m], maxTraces = 1000 \<rparr>"
  have len: "length ?th = 1001" by (rule numbered_traces_length)
  have h1: "\<forall>r \<in> set [0..<?m]. r < length ?th" unfolding len by (simp del: upt_rec_numeral)
  have h2: "?m < length ?th" unfolding len by simp
  have run: "store_all ?th TraceStorage_new [0..<?m] = Inr ?S"
    by (rule numbered_traces_stored) simp_all
  obtain st where st: "store_all ?th TraceStorage_new [0..<?m] = Inr st"
      "store ?th st ?m =
         Inr (st\<lparr> traces :=
                (if traceId (?th ! ?m) \<in> fst ` set (traces st)
                 then assign (traceId (?th ! ?m)) ?m (traces st)
                 else if length (traces st) < 1000
                 then traces st @ [(traceId (?th ! ?m), ?m)]
                 else tl (traces st) @ [(traceId (?th ! ?m), ?m)]) \<rparr>)"
    using store_bounded_fifo [OF h1 h2] by blast
  have S: "st = ?S" using st(1) run by simp
  have k: "traceId (?th ! ?m) = replicate ?m CHR ''x''"
    by (rule numbered_traces_id) simp
  have keys: "fst ` set (traces ?S) = (\<lambda>i. replicate i CHR ''x'') ` {0..<?m}"
    by (simp add: image_image del: upt_rec_numeral)
  have absent: "replicate ?m CHR ''x'' \<notin> fst ` set (traces ?S)"
    unfolding keys
  proof
    assume "replicate ?m CHR ''x'' \<in> (\<lambda>i. replicate i CHR ''x'') ` {0..<?m}"
    then obtain i where "i < ?m" "replicate ?m CHR ''x'' = replicate i CHR ''x''" by auto
    then show False by (metis length_replicate less_irrefl)
  qed
  have full: "length (traces ?S) = 1000" by (simp del: upt_rec_numeral)
  have first: "get ?S [] = Some 0"
  proof -
    have "[0..<?m] = 0 # [Suc 0..<?m]" by (rule upt_conv_Cons) simp
    then have "traces ?S = ([], 0) # map (\<lambda>i. (replicate i CHR ''x'', i)) [Suc 0..<?m]"
      by (simp del: upt_rec_numeral)
    then show ?thesis by (simp add: get_def Map_get_def del: upt_rec_numeral)
  qed
  have "store ?th ?S ?m = Inr (?S\<lparr> traces := tl (traces ?S) @ [(replicate ?m CHR ''x'', ?m)] \<rparr>)"
    using st(2) absent full unfolding S k by (simp only: if_False less_irrefl)
  then have "store_all ?th TraceStorage_new [0..<?m] = Inr ?S \<and> length (traces ?S) = 1000
      \<and> get ?S [] = Some 0
      \<and> store ?th ?S ?m = Inr (?S\<lparr> traces := tl (traces ?S) @ [(replicate ?m CHR ''x'', ?m)] \<rparr>)"
    using run full first by blast
  then have ex: "\<exists>st. store_all ?th TraceStorage_new [0..<?m] = Inr st
          \<and> length (traces st) = 1000 \<and> get st [] = Some 0
          \<and> store ?th st ?m = Inr (st\<lparr> traces := tl (traces st) @ [(replicate ?m CHR ''x'', ?m)] \<rparr>)"
    by (rule exI)
  have "list_all (\<lambda>r. r < length ?th) [0..<?m]" using h1 by (simp only: list_all_iff)
  with h2 ex show ?thesis by blast
qed

text \<open>
  C7. \<open>store\<close> of a trace whose id is already a key replaces the value where the entry
  stands: the keys, their order (so the next entry to be evicted) and every other entry are
  unchanged, \<open>getAll()\<close> differs only at that position, and \<open>get\<close> returns the new value.
\<close>

theorem restore_keeps_position:
  assumes "\<forall>x \<in> set rs. x < length th" and "r < length th"
    and "store_all th TraceStorage_new rs = Inr st"
    and "get st (traceId (th ! r)) \<noteq> None"
  shows "\<exists>st' i. store th st r = Inr st' \<and> i < length (traces st)
           \<and> fst (traces st ! i) = traceId (th ! r)
           \<and> traces st' = (traces st)[i := (traceId (th ! r), r)]
           \<and> getAll st' = (getAll st)[i := r]
           \<and> map fst (traces st') = map fst (traces st)
           \<and> get st' (traceId (th ! r)) = Some r"
proof -
  let ?k = "traceId (th ! r)"
  have ok: "storage_ok st"
    using store_all_ok[OF TraceStorage_new_ok assms(1)] assms(3) by auto
  have d: "deref th r = Some (th ! r)" using assms(2) by (simp add: deref_def)
  have kin: "?k \<in> fst ` set (traces st)"
    using assms(4) by (simp add: get_def Map_get_def map_of_eq_None_iff)
  obtain i where i: "i < length (traces st)" "fst (traces st ! i) = ?k"
      "assign ?k r (traces st) = (traces st)[i := (?k, r)]"
    using assign_present_index[OF kin] by blast
  let ?st' = "st\<lparr>traces := (traces st)[i := (?k, r)]\<rparr>"
  have s: "store th st r = Inr ?st'"
    using store_step[OF ok d] kin i(3) by simp
  have "getAll ?st' = (getAll st)[i := r]" by (simp add: getAll_def map_update)
  moreover have "map fst (traces ?st') = map fst (traces st)"
    using assign_keys_present[OF kin, of r] i(3) by simp
  moreover have "get ?st' ?k = Some r"
    using map_of_assign[of ?k r "traces st"] i(3) by (simp add: get_def Map_get_def)
  ultimately show ?thesis using s i(1,2) by auto
qed

theorem restore_keeps_position_witness:
  "list_all (\<lambda>x. x < length [sample_trace ''a'', sample_trace ''b'', sample_trace ''a'']) [0, 1]
   \<and> 2 < length [sample_trace ''a'', sample_trace ''b'', sample_trace ''a'']
   \<and> store_all [sample_trace ''a'', sample_trace ''b'', sample_trace ''a''] TraceStorage_new [0, 1]
       = Inr \<lparr> traces = [(''a'', 0), (''b'', 1)], maxTraces = 1000 \<rparr>
   \<and> get \<lparr> traces = [(''a'', 0), (''b'', 1)], maxTraces = 1000 \<rparr> ''a'' \<noteq> None
   \<and> store [sample_trace ''a'', sample_trace ''b'', sample_trace ''a'']
         \<lparr> traces = [(''a'', 0), (''b'', 1)], maxTraces = 1000 \<rparr> 2
       = Inr \<lparr> traces = [(''a'', 2), (''b'', 1)], maxTraces = 1000 \<rparr>
   \<and> getAll \<lparr> traces = [(''a'', 2), (''b'', 1)], maxTraces = 1000 \<rparr> = [2, 1]"
proof -
  let ?th = "[sample_trace ''a'', sample_trace ''b'', sample_trace ''a'']"
  let ?st = "\<lparr> traces = [(''a'', 0), (''b'', 1)], maxTraces = 1000 \<rparr>"
  have h1: "\<forall>x \<in> set [0, 1]. x < length ?th" by simp
  have h2: "2 < length ?th" by simp
  have h3: "store_all ?th TraceStorage_new [0, 1] = Inr ?st"
    by (simp add: sample_trace_def Trace_new_def store_def deref_def TraceStorage_new_def Let_def)
  have h4: "get ?st (traceId (?th ! 2)) \<noteq> None"
    by (simp add: get_def Map_get_def sample_trace_def Trace_new_def Let_def)
  from restore_keeps_position[OF h1 h2 h3 h4] h1 h2 h3 h4
  show ?thesis
    by (simp add: sample_trace_def Trace_new_def store_def deref_def Let_def getAll_def get_def Map_get_def)
qed

section \<open>Properties of Tracer\<close>

lemma tracer_ok_active:
  assumes "tracer_ok H tr" and "Map_get (activeTraces tr) tid = Some r"
  shows "r < length (trace_objs H) \<and> traceId (trace_objs H ! r) = tid"
proof -
  have "(tid, r) \<in> set (activeTraces tr)"
    using assms(2) by (simp add: Map_get_def map_of_SomeD)
  then show ?thesis using assms(1) by (force simp: tracer_ok_def)
qed

lemma traceId_finish: "traceId (finish t err now) = traceId t"
  by (simp add: finish_def)

lemma finishTrace_success:
  assumes "tracer_ok H tr" and "Map_get (activeTraces tr) tid = Some r"
  shows "\<exists>st. finishTrace H tr tid err now =
               ((H\<lparr> trace_objs := (trace_objs H)[r := finish (trace_objs H ! r) err now] \<rparr>,
                 tr\<lparr> storage := st, activeTraces := Map_delete (activeTraces tr) tid \<rparr>),
                Inr r)
            \<and> storage_ok st \<and> get st tid = Some r"
proof -
  let ?t = "trace_objs H ! r"
  let ?th' = "(trace_objs H)[r := finish ?t err now]"
  have r: "r < length (trace_objs H)" and k: "traceId ?t = tid"
    using tracer_ok_active[OF assms] by simp_all
  have d: "deref (trace_objs H) r = Some ?t" using r by (simp add: deref_def)
  have d': "deref ?th' r = Some (finish ?t err now)" using r by (simp add: deref_def)
  have ok: "storage_ok (storage tr)" using assms(1) by (simp add: tracer_ok_def)
  obtain st where st: "store ?th' (storage tr) r = Inr st" "storage_ok st"
      "get st (traceId (finish ?t err now)) = Some r"
    using store_ok[OF ok d'] by blast
  have "finishTrace H tr tid err now =
          ((H\<lparr> trace_objs := ?th' \<rparr>,
            tr\<lparr> storage := st, activeTraces := Map_delete (activeTraces tr) tid \<rparr>), Inr r)"
    using assms(2) d st(1) by (simp add: finishTrace_def Let_def)
  then show ?thesis using st(2,3) k by (auto simp: traceId_finish)
qed

lemma Map_get_delete: "Map_get (Map_delete m k) k = None"
  by (simp add: Map_get_def map_of_Map_delete)

lemma tracer_ok_finish:
  assumes "tracer_ok H tr" and "r < length (trace_objs H)" and "storage_ok st"
  shows "tracer_ok (H\<lparr> trace_objs := (trace_objs H)[r := finish (trace_objs H ! r) err now] \<rparr>)
                   (tr\<lparr> storage := st, activeTraces := Map_delete (activeTraces tr) tid \<rparr>)"
proof -
  let ?th' = "(trace_objs H)[r := finish (trace_objs H ! r) err now]"
  have same: "traceId (?th' ! q) = traceId (trace_objs H ! q)"
    if "q < length (trace_objs H)" for q
    using that by (cases "q = r") (simp_all add: traceId_finish)
  have sub: "set (Map_delete (activeTraces tr) tid) \<subseteq> set (activeTraces tr)"
    by (auto simp: Map_delete_def)
  have "snd p < length ?th' \<and> traceId (?th' ! snd p) = fst p"
    if "p \<in> set (Map_delete (activeTraces tr) tid)" for p
  proof -
    from that sub have "p \<in> set (activeTraces tr)" by blast
    then have "snd p < length (trace_objs H)" "traceId (trace_objs H ! snd p) = fst p"
      using assms(1) by (simp_all add: tracer_ok_def)
    then show ?thesis using same by simp
  qed
  then show ?thesis using assms(3) by (simp add: tracer_ok_def)
qed

lemma Tracer_new_ok: "tracer_ok \<lparr> span_objs = [], trace_objs = [] \<rparr> (Tracer_new c)"
  by (simp add: tracer_ok_def Tracer_new_def TraceStorage_new_ok)

lemma set_assign: "set (assign k v m) \<subseteq> insert (k, v) (set m)"
  by (induction m) auto

lemma startTrace_ok:
  assumes "tracer_ok H tr"
    and "startTrace H tr nm n0 r0 n1 n2 r2 n3 = (H', tr', x)"
  shows "tracer_ok H' tr' \<and> Map_get (activeTraces tr') (mk_trace_id n0 r0) = Some x"
proof -
  let ?tid = "mk_trace_id n0 r0"
  let ?t = "snd (Trace_new (span_objs H) ?tid nm n1 n2 r2 n3)"
  have H': "trace_objs H' = trace_objs H @ [?t]" and x: "x = length (trace_objs H)"
    and tr': "tr' = tr\<lparr> activeTraces := assign ?tid x (activeTraces tr) \<rparr>"
    using assms(2) by (auto simp: startTrace_def Let_def split: prod.splits)
  have tid: "traceId ?t = ?tid" by (simp add: Trace_new_def Let_def)
  have "snd p < length (trace_objs H') \<and> traceId (trace_objs H' ! snd p) = fst p"
    if "p \<in> set (activeTraces tr')" for p
  proof -
    from that tr' set_assign[of ?tid x "activeTraces tr"]
    consider "p = (?tid, x)" | "p \<in> set (activeTraces tr)" by auto
    then show ?thesis
    proof cases
      case 1
      then show ?thesis using H' x tid by simp
    next
      case 2
      then have "snd p < length (trace_objs H)" "traceId (trace_objs H ! snd p) = fst p"
        using assms(1) by (simp_all add: tracer_ok_def)
      then show ?thesis using H' by (simp add: nth_append)
    qed
  qed
  moreover have "storage_ok (storage tr')" using assms(1) tr' by (simp add: tracer_ok_def)
  moreover have "Map_get (activeTraces tr') ?tid = Some x"
    using tr' by (simp add: Map_get_def map_of_assign)
  ultimately show ?thesis by (simp add: tracer_ok_def)
qed

lemma startSpan_traceId:
  "startSpan h t nm n1 rnd n2 = Inr (h', t', r) \<Longrightarrow> traceId t' = traceId t"
  by (auto simp: startSpan_def Let_def split: option.splits)

lemma endSpan_traceId:
  "endSpan h t err now = Inr (h', t') \<Longrightarrow> traceId t' = traceId t"
  by (auto simp: endSpan_def Let_def split: option.splits if_splits sum.splits)

lemma tracer_ok_update:
  assumes "tracer_ok H tr" and "traceId t' = traceId (trace_objs H ! r)"
  shows "tracer_ok \<lparr> span_objs = sh, trace_objs = (trace_objs H)[r := t'] \<rparr> tr"
proof -
  have "traceId ((trace_objs H)[r := t'] ! q) = traceId (trace_objs H ! q)"
    if "q < length (trace_objs H)" for q
    using that assms(2) by (cases "q = r") simp_all
  then show ?thesis using assms(1) by (simp add: tracer_ok_def)
qed

lemma Tracer_startSpan_ok:
  assumes "tracer_ok H tr" and "Tracer_startSpan H tr nm tid n1 rnd n2 = ((H', tr'), res)"
  shows "tracer_ok H' tr'"
  using assms
  by (auto simp: Tracer_startSpan_def deref_def
      split: option.splits sum.splits if_splits prod.splits
      intro!: tracer_ok_update dest!: startSpan_traceId)

lemma Tracer_endSpan_ok:
  assumes "tracer_ok H tr" and "Tracer_endSpan H tr err now = ((H', tr'), res)"
  shows "tracer_ok H' tr'"
  using assms
  by (auto simp: Tracer_endSpan_def deref_def
      split: option.splits sum.splits if_splits prod.splits
      intro!: tracer_ok_update dest!: endSpan_traceId)

lemma sample_open_eq:
  "sample_open =
     (\<lparr> span_objs = [Span_new ''trace-1-0.1'' ''checkout'' None 1 ''0.5'' 1],
        trace_objs = [\<lparr> traceId = ''trace-1-0.1'', startTime = 1, endTime = None, duration = None,
                        rootSpan = 0, allSpans = [0], status = Running, currentSpan = 0 \<rparr>] \<rparr>,
      \<lparr> config = \<lparr> serviceName = ''svc'', exportTo = Some Console, jaegerEndpoint = None,
                    captureMetrics = Some True, sampleRate = Some 1 \<rparr>,
        storage = \<lparr> traces = [], maxTraces = 1000 \<rparr>,
        activeTraces = [(''trace-1-0.1'', 0)] \<rparr>,
      0)"
  by (simp add: sample_open_def startTrace_def Trace_new_def Let_def Tracer_new_def
      TraceStorage_new_def sample_config_def mk_trace_id_def show_int_def digit_char_def)

lemma sample_open_ok: "tracer_ok (fst sample_open) (fst (snd sample_open))"
  by (simp add: sample_open_eq tracer_ok_def storage_ok_def)

lemma sample_busy_eq:
  "sample_busy =
     (\<lparr> span_objs =
          [\<lparr> span_id = ''span-1-0.5'', span_traceId = ''trace-1-0.1'',
             span_name = ''checkout'', span_startTime = 1, span_endTime = None,
             span_duration = None, span_status = Started, span_error = None,
             span_attributes = [], span_children = [1], span_parentId = None \<rparr>,
           \<lparr> span_id = ''span-2-0.25'', span_traceId = ''trace-1-0.1'',
             span_name = ''charge'', span_startTime = 2, span_endTime = Some 7,
             span_duration = Some 5, span_status = Completed, span_error = None,
             span_attributes = [], span_children = [],
             span_parentId = Some ''span-1-0.5'' \<rparr>],
        trace_objs =
          [\<lparr> traceId = ''trace-1-0.1'', startTime = 1, endTime = None,
             duration = None, rootSpan = 0, allSpans = [0, 1],
             status = Running, currentSpan = 0 \<rparr>] \<rparr>,
      \<lparr> config = \<lparr> serviceName = ''svc'', exportTo = Some Console, jaegerEndpoint = None,
                    captureMetrics = Some True, sampleRate = Some 1 \<rparr>,
        storage = \<lparr> traces = [], maxTraces = 1000 \<rparr>,
        activeTraces = [(''trace-1-0.1'', 0)] \<rparr>)"
  by (simp add: sample_busy_def sample_open_eq Tracer_startSpan_def Tracer_endSpan_def
      first_active_def deref_def startSpan_def endSpan_def Let_def Span_new_def addChild_def
      Span_end_def mk_span_id_def show_int_def digit_char_def)

lemma sample_busy_ok: "tracer_ok (fst sample_busy) (snd sample_busy)"
  by (simp add: sample_busy_eq tracer_ok_def storage_ok_def)


text \<open>
  C8. In a well-formed tracer, \<open>finishTrace(traceId, error?)\<close> throws the error
  "Trace not found" exactly when the id is not a key of the open traces, and then the heap
  and the tracer (open traces and storage) are left as they were. Otherwise it returns the
  trace object, which is finished (status by the error, end time set), is in the storage
  under its id, and is no longer among the open traces.
\<close>

theorem finishTrace_not_found_iff:
  assumes "tracer_ok H tr"
  shows "(snd (finishTrace H tr tid err now) = Inl (Throw (Error (''Trace not found: '' @ tid))))
           = (Map_get (activeTraces tr) tid = None)
       \<and> (case Map_get (activeTraces tr) tid of
            None \<Rightarrow> finishTrace H tr tid err now
                      = ((H, tr), Inl (Throw (Error (''Trace not found: '' @ tid))))
          | Some r \<Rightarrow>
              (\<exists>H' tr'. finishTrace H tr tid err now = ((H', tr'), Inr r)
                 \<and> map_option status (deref (trace_objs H') r)
                     = Some (case err of None \<Rightarrow> Completed_trace | Some _ \<Rightarrow> Failed)
                 \<and> map_option endTime (deref (trace_objs H') r) = Some (Some now)
                 \<and> getTrace tr' tid = Some r
                 \<and> Map_get (activeTraces tr') tid = None
                 \<and> tracer_ok H' tr'))"
proof (cases "Map_get (activeTraces tr) tid")
  case None
  then show ?thesis by (simp add: finishTrace_def)
next
  case (Some r)
  let ?H' = "H\<lparr> trace_objs := (trace_objs H)[r := finish (trace_objs H ! r) err now] \<rparr>"
  obtain st where st: "finishTrace H tr tid err now =
       ((?H', tr\<lparr> storage := st, activeTraces := Map_delete (activeTraces tr) tid \<rparr>), Inr r)"
      "storage_ok st" "get st tid = Some r"
    using finishTrace_success[OF assms Some] by blast
  let ?tr' = "tr\<lparr> storage := st, activeTraces := Map_delete (activeTraces tr) tid \<rparr>"
  have r: "r < length (trace_objs H)" using tracer_ok_active[OF assms Some] by simp
  have "map_option status (deref (trace_objs ?H') r)
          = Some (case err of None \<Rightarrow> Completed_trace | Some _ \<Rightarrow> Failed)"
    using r by (simp add: deref_def finish_def)
  moreover have "map_option endTime (deref (trace_objs ?H') r) = Some (Some now)"
    using r by (simp add: deref_def finish_def)
  moreover have "getTrace ?tr' tid = Some r" using st(3) by (simp add: getTrace_def)
  moreover have "Map_get (activeTraces ?tr') tid = None" by (simp add: Map_get_delete)
  moreover have "tracer_ok ?H' ?tr'" using assms r st(2) by (rule tracer_ok_finish)
  ultimately show ?thesis using st(1) Some by simp
qed


theorem finishTrace_not_found_iff_witness:
  "tracer_ok (fst sample_open) (fst (snd sample_open))
   \<and> finishTrace (fst sample_open) (fst (snd sample_open)) ''trace-0-0'' None 9
       = ((fst sample_open, fst (snd sample_open)),
          Inl (Throw (Error ''Trace not found: trace-0-0'')))
   \<and> Map_get (activeTraces (fst (snd sample_open))) ''trace-1-0.1'' = Some 0
   \<and> (\<exists>H' tr'. finishTrace (fst sample_open) (fst (snd sample_open)) ''trace-1-0.1'' None 9
                   = ((H', tr'), Inr 0)
          \<and> getTrace tr' ''trace-1-0.1'' = Some 0
          \<and> activeTraces tr' = []
          \<and> map_option status (deref (trace_objs H') 0) = Some Completed_trace)"
  using sample_open_ok
    finishTrace_not_found_iff [OF sample_open_ok, of "''trace-0-0''" None 9]
    finishTrace_not_found_iff [OF sample_open_ok, of "''trace-1-0.1''" None 9]
  by (simp add: sample_open_eq finishTrace_def finish_def Map_get_def deref_def store_def Let_def
      Map_delete_def getTrace_def get_def)


lemma finish_error_irrelevant: "finish t (Some e') now = finish t (Some e) now"
  by (simp add: finish_def)

lemma finishTrace_error_irrelevant:
  "finishTrace H tr tid (Some e') now = finishTrace H tr tid (Some e) now"
  unfolding finishTrace_def finish_error_irrelevant[where e' = e' and e = e] ..

text \<open>
  C2, as stated, fails in its second half: \<open>finish\<close> uses the error only to choose the
  status, and a trace has no field for it. Finishing the same open trace with two different
  errors leaves the same heap and the same tracer and returns the same trace.
\<close>

theorem finishTrace_error_not_kept_counterexample:
  "finishTrace (fst sample_open) (fst (snd sample_open)) (mk_trace_id 1 ''0.1'')
       (Some (Error ''card declined'')) 9
     = finishTrace (fst sample_open) (fst (snd sample_open)) (mk_trace_id 1 ''0.1'')
         (Some (Error ''gateway timeout'')) 9
   \<and> snd (finishTrace (fst sample_open) (fst (snd sample_open)) (mk_trace_id 1 ''0.1'')
         (Some (Error ''card declined'')) 9) = Inr 0
   \<and> Error ''card declined'' \<noteq> Error ''gateway timeout''"
  by (simp add: finishTrace_def finish_def sample_open_def startTrace_def Trace_new_def Let_def
      Tracer_new_def TraceStorage_new_def Map_get_def deref_def store_def)

text \<open>
  C2, amended. \<open>finishTrace\<close> on an open trace with an error value returns the trace with
  status \<open>failed\<close>, not \<open>completed\<close>; the error value itself is recorded nowhere: no span
  is touched, and the resulting heap, tracer and returned trace are the same for every
  error value.
\<close>

theorem finishTrace_error_marks_failed:
  assumes "tracer_ok H tr" and "Map_get (activeTraces tr) tid = Some r"
  shows "\<exists>H' tr'. finishTrace H tr tid (Some e) now = ((H', tr'), Inr r)
           \<and> map_option status (deref (trace_objs H') r) = Some Failed
           \<and> span_objs H' = span_objs H
           \<and> finishTrace H tr tid (Some e') now = ((H', tr'), Inr r)"
proof -
  obtain st where st: "finishTrace H tr tid (Some e) now =
       ((H\<lparr> trace_objs := (trace_objs H)[r := finish (trace_objs H ! r) (Some e) now] \<rparr>,
         tr\<lparr> storage := st, activeTraces := Map_delete (activeTraces tr) tid \<rparr>), Inr r)"
    using finishTrace_success[OF assms] by blast
  have r: "r < length (trace_objs H)" using tracer_ok_active[OF assms] by simp
  have "map_option status (deref ((trace_objs H)[r := finish (trace_objs H ! r) (Some e) now]) r)
          = Some Failed"
    using r by (simp add: deref_def finish_def)
  then show ?thesis using st finishTrace_error_irrelevant[of H tr tid e' now e] by simp
qed

theorem finishTrace_error_marks_failed_witness:
  "tracer_ok (fst sample_open) (fst (snd sample_open))
   \<and> Map_get (activeTraces (fst (snd sample_open))) ''trace-1-0.1'' = Some 0
   \<and> (\<exists>H' tr'. finishTrace (fst sample_open) (fst (snd sample_open)) ''trace-1-0.1''
                    (Some (Error ''card declined'')) 9 = ((H', tr'), Inr 0)
          \<and> map_option status (deref (trace_objs H') 0) = Some Failed
          \<and> map_option span_error (deref (span_objs H') 0) = Some None)"
proof -
  have a: "Map_get (activeTraces (fst (snd sample_open))) ''trace-1-0.1'' = Some 0"
    by (simp add: sample_open_eq Map_get_def)
  obtain H' tr' where r:
      "finishTrace (fst sample_open) (fst (snd sample_open)) ''trace-1-0.1''
         (Some (Error ''card declined'')) 9 = ((H', tr'), Inr 0)"
      "map_option status (deref (trace_objs H') 0) = Some Failed"
      "span_objs H' = span_objs (fst sample_open)"
    using finishTrace_error_marks_failed [OF sample_open_ok a,
        where e = "Error ''card declined''" and now = 9 and e' = "Error ''gateway timeout''"]
    by blast
  have "map_option span_error (deref (span_objs H') 0) = Some None"
    unfolding r(3) by (simp add: sample_open_eq deref_def Span_new_def)
  with r(1,2) sample_open_ok a show ?thesis by blast
qed

text \<open>
  C10. \<open>finishTrace\<close> on an open trace changes the fields \<open>endTime\<close>, \<open>duration\<close> and
  \<open>status\<close> of that trace object and nothing else in the heap: every other trace object and
  every span object is as before. So the root span of the stored trace has the status and
  the duration it had: a root span that was never ended is still \<open>started\<close>, without a
  duration.
\<close>

theorem finishTrace_ends_no_span:
  assumes "tracer_ok H tr" and "Map_get (activeTraces tr) tid = Some r"
  shows "\<exists>H' tr'. finishTrace H tr tid err now = ((H', tr'), Inr r)
           \<and> span_objs H' = span_objs H
           \<and> trace_objs H' =
               (trace_objs H)[r := (trace_objs H ! r)
                  \<lparr> endTime := Some now,
                    duration := Some (now - startTime (trace_objs H ! r)),
                    status := (case err of None \<Rightarrow> Completed_trace | Some _ \<Rightarrow> Failed) \<rparr>]
           \<and> getTrace tr' tid = Some r
           \<and> deref (span_objs H') (rootSpan (trace_objs H' ! r))
               = deref (span_objs H) (rootSpan (trace_objs H ! r))"
proof -
  obtain st where st: "finishTrace H tr tid err now =
       ((H\<lparr> trace_objs := (trace_objs H)[r := finish (trace_objs H ! r) err now] \<rparr>,
         tr\<lparr> storage := st, activeTraces := Map_delete (activeTraces tr) tid \<rparr>), Inr r)"
      "get st tid = Some r"
    using finishTrace_success[OF assms] by blast
  have r: "r < length (trace_objs H)" using tracer_ok_active[OF assms] by simp
  show ?thesis using st r by (simp add: finish_def getTrace_def)
qed

theorem finishTrace_ends_no_span_witness:
  "tracer_ok (fst sample_busy) (snd sample_busy)
   \<and> Map_get (activeTraces (snd sample_busy)) ''trace-1-0.1'' = Some 0
   \<and> (\<exists>H' tr'. finishTrace (fst sample_busy) (snd sample_busy) ''trace-1-0.1'' None 9
                   = ((H', tr'), Inr 0)
          \<and> getTrace tr' ''trace-1-0.1'' = Some 0
          \<and> map_option status (deref (trace_objs H') 0) = Some Completed_trace
          \<and> map_option span_status (deref (span_objs H') (rootSpan (trace_objs H' ! 0)))
              = Some Started
          \<and> map_option span_duration (deref (span_objs H') (rootSpan (trace_objs H' ! 0)))
              = Some None)"
proof -
  have a: "Map_get (activeTraces (snd sample_busy)) ''trace-1-0.1'' = Some 0"
    by (simp add: sample_busy_eq Map_get_def)
  obtain H' tr' where r:
      "finishTrace (fst sample_busy) (snd sample_busy) ''trace-1-0.1'' None 9 = ((H', tr'), Inr 0)"
      "span_objs H' = span_objs (fst sample_busy)"
      "trace_objs H' =
         (trace_objs (fst sample_busy))[0 := (trace_objs (fst sample_busy) ! 0)
            \<lparr> endTime := Some 9,
              duration := Some (9 - startTime (trace_objs (fst sample_busy) ! 0)),
              status := (case None :: js_error option of
                           None \<Rightarrow> Completed_trace | Some _ \<Rightarrow> Failed) \<rparr>]"
      "getTrace tr' ''trace-1-0.1'' = Some 0"
    using finishTrace_ends_no_span [OF sample_busy_ok a, of None 9] by blast
  have "map_option status (deref (trace_objs H') 0) = Some Completed_trace"
    "map_option span_status (deref (span_objs H') (rootSpan (trace_objs H' ! 0))) = Some Started"
    "map_option span_duration (deref (span_objs H') (rootSpan (trace_objs H' ! 0))) = Some None"
    unfolding r(2,3) by (simp_all add: sample_busy_eq deref_def)
  with r(1,4) sample_busy_ok a show ?thesis by blast
qed

section \<open>Properties of MetricsCollector\<close>

lemma deref_all_valid:
  "\<forall>r \<in> set rs. r < length h \<Longrightarrow> deref_all h rs = Inr (map ((!) h) rs)"
  by (induction rs) (auto simp: deref_def)

lemma foldl_durations:
  "foldl (\<lambda>sum sp. sum + or0 (span_duration sp)) a xs
     = a + sum_list (map (\<lambda>sp. or0 (span_duration sp)) xs)"
  by (induction xs arbitrary: a) auto

lemma slowest_from_index:
  assumes "zs = ps @ ys" and "k < length zs" and "c = zs ! k"
    and "\<forall>j < length ps. or0 (span_duration (zs ! j)) \<le> or0 (span_duration c)"
    and "\<forall>j < k. or0 (span_duration (zs ! j)) < or0 (span_duration c)"
  shows "\<exists>i < length zs. slowest_from c ys = zs ! i
           \<and> (\<forall>j < length zs. or0 (span_duration (zs ! j)) \<le> or0 (span_duration (zs ! i)))
           \<and> (\<forall>j < i. or0 (span_duration (zs ! j)) < or0 (span_duration (zs ! i)))"
  using assms
proof (induction ys arbitrary: ps c k)
  case Nil
  then show ?case by auto
next
  case (Cons y ys)
  let ?D = "\<lambda>sp. or0 (span_duration sp)"
  have zs: "zs = (ps @ [y]) @ ys" using Cons.prems(1) by simp
  have y: "zs ! length ps = y" using Cons.prems(1) by simp
  have lp: "length ps < length zs" using Cons.prems(1) by simp
  show ?case
  proof (cases "?D y > ?D c")
    case True
    have a: "\<forall>j < length (ps @ [y]). ?D (zs ! j) \<le> ?D y"
    proof (intro allI impI)
      fix j assume "j < length (ps @ [y])"
      then consider "j < length ps" | "j = length ps" by fastforce
      then show "?D (zs ! j) \<le> ?D y"
      proof cases
        case 1
        then show ?thesis using Cons.prems(4) True by fastforce
      next
        case 2
        then show ?thesis using y by simp
      qed
    qed
    have b: "\<forall>j < length ps. ?D (zs ! j) < ?D y"
      using Cons.prems(4) True by fastforce
    have "\<exists>i < length zs. slowest_from y ys = zs ! i
           \<and> (\<forall>j < length zs. ?D (zs ! j) \<le> ?D (zs ! i))
           \<and> (\<forall>j < i. ?D (zs ! j) < ?D (zs ! i))"
      using Cons.IH[OF zs lp y[symmetric] a b] .
    then show ?thesis using True by simp
  next
    case False
    have a: "\<forall>j < length (ps @ [y]). ?D (zs ! j) \<le> ?D c"
    proof (intro allI impI)
      fix j assume "j < length (ps @ [y])"
      then consider "j < length ps" | "j = length ps" by fastforce
      then show "?D (zs ! j) \<le> ?D c"
      proof cases
        case 1
        then show ?thesis using Cons.prems(4) by simp
      next
        case 2
        then show ?thesis using y False by simp
      qed
    qed
    have "\<exists>i < length zs. slowest_from c ys = zs ! i
           \<and> (\<forall>j < length zs. ?D (zs ! j) \<le> ?D (zs ! i))
           \<and> (\<forall>j < i. ?D (zs ! j) < ?D (zs ! i))"
      using Cons.IH[OF zs Cons.prems(2,3) a Cons.prems(5)] .
    then show ?thesis using False by simp
  qed
qed

text \<open>
  C9. For a trace with at least one span, \<open>analyzeTrace\<close> returns metrics whose
  \<open>slowestOperation\<close> is the name and duration of a span of \<open>allSpans\<close> whose duration, read
  as 0 when missing, is the greatest of all and strictly greater than that of every span
  before it (the first span of maximal duration), and whose \<open>averageOperationTime\<close> is the
  sum of the durations, read as 0 when missing, divided by the number of spans.
\<close>

theorem analyzeTrace_slowest_and_average:
  assumes "allSpans t \<noteq> []" and "\<forall>r \<in> set (allSpans t). r < length h"
  shows "\<exists>m i. analyzeTrace h t heapUsed = Inr m
           \<and> i < length (allSpans t)
           \<and> slowestOperation m
               = (span_name (h ! (allSpans t ! i)), or0 (span_duration (h ! (allSpans t ! i))))
           \<and> (\<forall>j < length (allSpans t).
                 or0 (span_duration (h ! (allSpans t ! j)))
                   \<le> or0 (span_duration (h ! (allSpans t ! i))))
           \<and> (\<forall>j < i.
                 or0 (span_duration (h ! (allSpans t ! j)))
                   < or0 (span_duration (h ! (allSpans t ! i))))
           \<and> averageOperationTime m
               = real_of_int (sum_list (map (\<lambda>r. or0 (span_duration (h ! r))) (allSpans t)))
                 / real (length (allSpans t))"
proof -
  let ?zs = "map ((!) h) (allSpans t)"
  obtain first others where zs: "?zs = first # others"
    using assms(1) by (cases ?zs) auto
  have d: "deref_all h (allSpans t) = Inr (first # others)"
    using deref_all_valid[OF assms(2)] zs by simp
  have len: "length ?zs = length (allSpans t)" by simp
  have "0 < length ?zs" "first = ?zs ! 0" using zs by simp_all
  from slowest_from_index[of ?zs "[]" ?zs 0 first, OF _ this]
  obtain i where i: "i < length ?zs" "slowest_from first ?zs = ?zs ! i"
      "\<forall>j < length ?zs. or0 (span_duration (?zs ! j)) \<le> or0 (span_duration (?zs ! i))"
      "\<forall>j < i. or0 (span_duration (?zs ! j)) < or0 (span_duration (?zs ! i))"
    by auto
  have nth: "?zs ! j = h ! (allSpans t ! j)" if "j < length (allSpans t)" for j
    using that by simp
  let ?D = "\<lambda>sp. or0 (span_duration sp)"
  obtain m where m: "analyzeTrace h t heapUsed = Inr m"
      "slowestOperation m
         = (span_name (slowest_from first (first # others)),
            ?D (slowest_from first (first # others)))"
      "averageOperationTime m
         = real_of_int (sum_list (map ?D (first # others))) / real (length (first # others))"
    using d by (simp add: analyzeTrace_def Let_def foldl_durations)
  have il: "i < length (allSpans t)" using i(1) by simp
  have s1: "slowestOperation m
      = (span_name (h ! (allSpans t ! i)), or0 (span_duration (h ! (allSpans t ! i))))"
    using m(2) i(2) il unfolding zs[symmetric] by simp
  have s2: "\<forall>j < length (allSpans t).
      or0 (span_duration (h ! (allSpans t ! j))) \<le> or0 (span_duration (h ! (allSpans t ! i)))"
    using i(3) il by simp
  have s3: "\<forall>j < i.
      or0 (span_duration (h ! (allSpans t ! j))) < or0 (span_duration (h ! (allSpans t ! i)))"
    using i(4) il by simp
  have s4: "averageOperationTime m
      = real_of_int (sum_list (map (\<lambda>r. or0 (span_duration (h ! r))) (allSpans t)))
        / real (length (allSpans t))"
    using m(3) unfolding zs[symmetric] by (simp add: comp_def)
  show ?thesis using m il s1 s2 s3 s4 by blast
qed

theorem analyzeTrace_slowest_and_average_witness:
  "Trace_run (Trace_new [] ''t1'' ''checkout'' 0 0 ''0.1'' 0)
     [StartSpan ''validate'' 0 ''0.2'' 0, EndSpan None 50, StartSpan ''charge'' 50 ''0.3'' 50,
      StartSpan ''gateway-call'' 60 ''0.4'' 60, EndSpan None 210, EndSpan None 250]
     = Inr (checkout_spans, checkout_trace)
   \<and> allSpans checkout_trace \<noteq> []
   \<and> list_all (\<lambda>r. r < length checkout_spans) (allSpans checkout_trace)
   \<and> (\<exists>m. analyzeTrace checkout_spans checkout_trace 0 = Inr m
          \<and> slowestOperation m = (''charge'', 200)
          \<and> averageOperationTime m = 100)"
proof -
  have run: "Trace_run (Trace_new [] ''t1'' ''checkout'' 0 0 ''0.1'' 0)
     [StartSpan ''validate'' 0 ''0.2'' 0, EndSpan None 50, StartSpan ''charge'' 50 ''0.3'' 50,
      StartSpan ''gateway-call'' 60 ''0.4'' 60, EndSpan None 210, EndSpan None 250]
     = Inr (checkout_spans, checkout_trace)"
    by (simp add: checkout_spans_def checkout_trace_def Trace_new_def startSpan_def endSpan_def
        deref_def Let_def Span_new_def addChild_def Span_end_def mk_span_id_def show_int_def
        digit_char_def)
  have ne: "allSpans checkout_trace \<noteq> []" by (simp add: checkout_trace_def)
  have valid: "\<forall>r \<in> set (allSpans checkout_trace). r < length checkout_spans"
    by (simp add: checkout_trace_def checkout_spans_def)
  obtain m i where m: "analyzeTrace checkout_spans checkout_trace 0 = Inr m"
    using analyzeTrace_slowest_and_average [OF ne valid, of 0] by blast
  have "analyzeTrace checkout_spans checkout_trace 0 = Inr m \<Longrightarrow>
          slowestOperation m = (''charge'', 200) \<and> averageOperationTime m = 100"
    by (auto simp: analyzeTrace_def checkout_trace_def checkout_spans_def deref_def Let_def or0_def)
  with m run ne valid show ?thesis by (auto simp: list_all_iff)
qed

end
